theory Spec2Isabelle
  imports Main "HOL-Library.Monad_Syntax"
begin

section \<open>The snake game of \<^verbatim>\<open>snake.c\<close>: data model\<close>

text \<open>
  The program keeps its whole state in global variables. The model collects them in the
  record \<open>game\<close> and passes it explicitly. The C \<open>int\<close>s that hold coordinates, score,
  delay and level are modelled as \<open>int\<close>; the values stay far below \<open>2^31\<close> (the score is
  at most ten times the buffer size), so no wrap-around is involved. \<open>snake_len\<close> and the
  loop counters start at a non-negative value and are only ever incremented or compared,
  so they are \<open>nat\<close>.
\<close>

definition DEFAULT_WIDTH :: int where "DEFAULT_WIDTH = 30"
definition DEFAULT_HEIGHT :: int where "DEFAULT_HEIGHT = 20"
definition MAX_SNAKE :: nat where "MAX_SNAKE = nat (DEFAULT_WIDTH * DEFAULT_HEIGHT)"
definition STARTING_LENGTH :: nat where "STARTING_LENGTH = 4"
definition INITIAL_DELAY_MS :: int where "INITIAL_DELAY_MS = 200"
definition MIN_DELAY_MS :: int where "MIN_DELAY_MS = 50"

datatype Direction = UP | DOWN | LEFT | RIGHT

record Point =
  x :: int
  y :: int

text \<open>
  \<open>snake\<close> is the array \<^verbatim>\<open>Point snake[MAX_SNAKE]\<close>: a list that always has \<open>MAX_SNAKE\<close>
  cells, of which the first \<open>snake_len\<close> are the segments, head first. \<open>rand_pos\<close> is the
  number of calls of \<^verbatim>\<open>rand()\<close> made so far; the values \<^verbatim>\<open>rand()\<close> returns are a
  stream \<open>rnd :: nat \<Rightarrow> nat\<close> given to every function that draws from it.
\<close>

record game =
  width :: int
  height :: int
  snake :: "Point list"
  snake_len :: nat
  dir :: Direction
  fruit :: Point
  score :: int
  delay_ms :: int
  level :: int
  game_over :: bool
  rand_pos :: nat

text \<open>
  Reading or writing \<^verbatim>\<open>snake[i]\<close> with \<open>i\<close> outside the array is undefined behaviour in
  C. In the model it is the result \<open>None\<close>, and every function that touches the array
  returns an \<open>option\<close>.
\<close>

definition rd :: "Point list \<Rightarrow> nat \<Rightarrow> Point option" where
  "rd buf i = (if i < length buf then Some (buf ! i) else None)"

definition wr :: "Point list \<Rightarrow> nat \<Rightarrow> Point \<Rightarrow> Point list option" where
  "wr buf i p = (if i < length buf then Some (buf[i := p]) else None)"

definition point_equal :: "Point \<Rightarrow> Point \<Rightarrow> bool" where
  "point_equal a b = (x a = x b \<and> y a = y b)"

section \<open>Fruit placement\<close>

text \<open>
  The inner loop of \<^verbatim>\<open>place_fruit\<close>:
  \<^verbatim>\<open>for (int i = 0; i < snake_len; ++i) if (point_equal(snake[i], fruit)) { coll = 1; break; }\<close>
\<close>

function fruit_coll :: "Point list \<Rightarrow> nat \<Rightarrow> Point \<Rightarrow> nat \<Rightarrow> bool option" where
  "fruit_coll buf len f i =
     (if i < len then
        (case rd buf i of
           None \<Rightarrow> None
         | Some q \<Rightarrow> if point_equal q f then Some True else fruit_coll buf len f (i + 1))
      else Some False)"
  by pat_completeness auto
termination
  by (relation "measure (\<lambda>(buf, len, f, i). len - i)") auto

declare fruit_coll.simps [simp del]

text \<open>
  The outer loop \<^verbatim>\<open>while (1)\<close> with its counter \<^verbatim>\<open>tries\<close>. Each round draws two
  random numbers, \<^verbatim>\<open>fruit.x = rand() % width; fruit.y = rand() % height;\<close>, and returns
  when the cell is free or when \<^verbatim>\<open>++tries > 10000\<close>. \<^verbatim>\<open>rand()\<close> is never negative
  and the divisors are positive in every configuration the program runs with, so the
  truncating \<^verbatim>\<open>%\<close> of C is \<open>mod\<close>.
\<close>

definition sample_fruit :: "(nat \<Rightarrow> nat) \<Rightarrow> game \<Rightarrow> game" where
  "sample_fruit rnd s =
     s\<lparr>fruit := \<lparr>x = int (rnd (rand_pos s)) mod width s,
                     y = int (rnd (rand_pos s + 1)) mod height s\<rparr>,
       rand_pos := rand_pos s + 2\<rparr>"

function place_fruit_loop :: "(nat \<Rightarrow> nat) \<Rightarrow> game \<Rightarrow> nat \<Rightarrow> game option" where
  "place_fruit_loop rnd s tries =
     (let s1 = sample_fruit rnd s
      in case fruit_coll (snake s1) (snake_len s1) (fruit s1) 0 of
           None \<Rightarrow> None
         | Some coll \<Rightarrow>
             if \<not> coll then Some s1
             else if tries + 1 > 10000 then Some s1
             else place_fruit_loop rnd s1 (tries + 1))"
  by pat_completeness auto
termination
  by (relation "measure (\<lambda>(rnd, s, tries). 10001 - tries)") auto

declare place_fruit_loop.simps [simp del]

definition place_fruit :: "(nat \<Rightarrow> nat) \<Rightarrow> game \<Rightarrow> game option" where
  "place_fruit rnd s = place_fruit_loop rnd s 0"

section \<open>Initialisation\<close>

text \<open>
  The loop of \<^verbatim>\<open>init_game\<close>:
  \<^verbatim>\<open>for (int i = 0; i < snake_len; ++i) { snake[i].x = cx - i; snake[i].y = cy; }\<close>
\<close>

function init_snake :: "Point list \<Rightarrow> nat \<Rightarrow> int \<Rightarrow> int \<Rightarrow> nat \<Rightarrow> Point list option" where
  "init_snake buf len cx cy i =
     (if i < len then
        (case wr buf i \<lparr>x = cx - int i, y = cy\<rparr> of
           None \<Rightarrow> None
         | Some buf' \<Rightarrow> init_snake buf' len cx cy (i + 1))
      else Some buf)"
  by pat_completeness auto
termination
  by (relation "measure (\<lambda>(buf, len, cx, cy, i). len - i)") auto

declare init_snake.simps [simp del]

definition init_game :: "(nat \<Rightarrow> nat) \<Rightarrow> game \<Rightarrow> game option" where
  "init_game rnd s =
     (let s1 = s\<lparr>score := 0, level := 1, delay_ms := INITIAL_DELAY_MS,
                 snake_len := STARTING_LENGTH\<rparr>;
          cx = width s1 div 2;
          cy = height s1 div 2
      in do {
        buf \<leftarrow> init_snake (snake s1) (snake_len s1) cx cy 0;
        s2 \<leftarrow> place_fruit rnd (s1\<lparr>snake := buf, dir := RIGHT\<rparr>);
        Some (s2\<lparr>game_over := False\<rparr>)
      })"

section \<open>One step of the snake\<close>

text \<open>
  \<^verbatim>\<open>step_snake\<close> returns 0 at three places and 1 at the end. The model keeps the place:
  \<open>HitWall\<close>, \<open>HitSelf\<close> and \<open>BoardFull\<close> are the three \<^verbatim>\<open>return 0\<close>, \<open>Moved\<close> is
  \<^verbatim>\<open>return 1\<close>, and \<open>ret_val\<close> is the \<^verbatim>\<open>int\<close> the caller sees.
\<close>

datatype step_result = HitWall | HitSelf | BoardFull | Moved

fun ret_val :: "step_result \<Rightarrow> int" where
  "ret_val HitWall = 0"
| "ret_val HitSelf = 0"
| "ret_val BoardFull = 0"
| "ret_val Moved = 1"

definition advance :: "Direction \<Rightarrow> Point \<Rightarrow> Point" where
  "advance d p =
     (case d of
        UP \<Rightarrow> p\<lparr>y := y p - 1\<rparr>
      | DOWN \<Rightarrow> p\<lparr>y := y p + 1\<rparr>
      | LEFT \<Rightarrow> p\<lparr>x := x p - 1\<rparr>
      | RIGHT \<Rightarrow> p\<lparr>x := x p + 1\<rparr>)"

definition out_of_grid :: "game \<Rightarrow> Point \<Rightarrow> bool" where
  "out_of_grid s p = (x p < 0 \<or> x p \<ge> width s \<or> y p < 0 \<or> y p \<ge> height s)"

text \<open>
  \<^verbatim>\<open>for (int i = 0; i < snake_len; ++i) if (point_equal(new_head, snake[i])) return 0;\<close>
\<close>

function self_coll :: "Point list \<Rightarrow> nat \<Rightarrow> Point \<Rightarrow> nat \<Rightarrow> bool option" where
  "self_coll buf len nh i =
     (if i < len then
        (case rd buf i of
           None \<Rightarrow> None
         | Some q \<Rightarrow> if point_equal nh q then Some True else self_coll buf len nh (i + 1))
      else Some False)"
  by pat_completeness auto
termination
  by (relation "measure (\<lambda>(buf, len, nh, i). len - i)") auto

declare self_coll.simps [simp del]

text \<open>
  \<^verbatim>\<open>for (int i = snake_len; i > 0; --i) snake[i] = snake[i-1];\<close>
  The first round writes \<^verbatim>\<open>snake[snake_len]\<close>, one cell past the last segment.
\<close>

fun move_body :: "Point list \<Rightarrow> nat \<Rightarrow> Point list option" where
  "move_body buf 0 = Some buf"
| "move_body buf (Suc j) =
     (case rd buf j of
        None \<Rightarrow> None
      | Some q \<Rightarrow> (case wr buf (Suc j) q of
                    None \<Rightarrow> None
                  | Some buf' \<Rightarrow> move_body buf' j))"

definition speed_up :: "game \<Rightarrow> game" where
  "speed_up s =
     (if snake_len s mod 3 = 0 \<and> delay_ms s > MIN_DELAY_MS
      then s\<lparr>delay_ms := delay_ms s - 10, level := level s + 1\<rparr>
      else s)"

definition step_snake :: "(nat \<Rightarrow> nat) \<Rightarrow> game \<Rightarrow> (step_result \<times> game) option" where
  "step_snake rnd s =
     do {
       h \<leftarrow> rd (snake s) 0;
       let new_head = advance (dir s) h;
       if out_of_grid s new_head then Some (HitWall, s)
       else do {
         hit \<leftarrow> self_coll (snake s) (snake_len s) new_head 0;
         if hit then Some (HitSelf, s)
         else do {
           buf1 \<leftarrow> move_body (snake s) (snake_len s);
           buf2 \<leftarrow> wr buf1 0 new_head;
           let s1 = s\<lparr>snake := buf2\<rparr>;
           if point_equal new_head (fruit s1) then do {
             s2 \<leftarrow> place_fruit rnd (s1\<lparr>snake_len := snake_len s1 + 1, score := score s1 + 10\<rparr>);
             let s3 = speed_up s2;
             if snake_len s3 \<ge> MAX_SNAKE - 1 then Some (BoardFull, s3)
             else Some (Moved, s3)
           }
           else Some (Moved, s1)
         }
       }
     }"

definition opposite :: "Direction \<Rightarrow> Direction \<Rightarrow> bool" where
  "opposite d newd =
     ((d = UP \<and> newd = DOWN) \<or> (d = DOWN \<and> newd = UP) \<or>
      (d = LEFT \<and> newd = RIGHT) \<or> (d = RIGHT \<and> newd = LEFT))"

definition change_direction :: "Direction \<Rightarrow> game \<Rightarrow> game" where
  "change_direction newd s = (if opposite (dir s) newd then s else s\<lparr>dir := newd\<rparr>)"

section \<open>The driver: \<^verbatim>\<open>main\<close>\<close>

text \<open>
  \<^verbatim>\<open>if (w >= 10 && h >= 5 && w*h <= 10000) { width = w; height = h; }\<close>; otherwise the
  defaults stay. The product is the one of the integers: for arguments so large that
  \<^verbatim>\<open>w*h\<close> overflows an \<^verbatim>\<open>int\<close> the C program has no defined behaviour, and the model
  takes them as rejected. The other globals start zeroed, as C initialises them.
\<close>

definition accepted :: "int \<Rightarrow> int \<Rightarrow> bool" where
  "accepted w h = (w \<ge> 10 \<and> h \<ge> 5 \<and> w * h \<le> 10000)"

definition startup :: "int \<Rightarrow> int \<Rightarrow> game" where
  "startup w h =
     \<lparr>width = (if accepted w h then w else DEFAULT_WIDTH),
      height = (if accepted w h then h else DEFAULT_HEIGHT),
      snake = replicate MAX_SNAKE \<lparr>x = 0, y = 0\<rparr>,
      snake_len = 0, dir = UP, fruit = \<lparr>x = 0, y = 0\<rparr>,
      score = 0, delay_ms = 0, level = 0, game_over = False, rand_pos = 0\<rparr>"

text \<open>
  One round of the main loop after the input was polled:
  \<^verbatim>\<open>int alive = step_snake(); if (!alive) { game_over = 1; break; }\<close>
\<close>

definition tick :: "(nat \<Rightarrow> nat) \<Rightarrow> game \<Rightarrow> game option" where
  "tick rnd s =
     do {
       (r, s') \<leftarrow> step_snake rnd s;
       if ret_val r = 0 then Some (s'\<lparr>game_over := True\<rparr>) else Some s'
     }"

text \<open>
  Whether \<^verbatim>\<open>step_snake\<close>, called in state \<open>s\<close>, reaches the branch
  \<^verbatim>\<open>if (point_equal(new_head, fruit))\<close> and takes it: the snake eats the fruit.
\<close>

definition eats :: "game \<Rightarrow> bool" where
  "eats s =
     (case rd (snake s) 0 of
        None \<Rightarrow> False
      | Some h \<Rightarrow>
          \<not> out_of_grid s (advance (dir s) h) \<and>
          self_coll (snake s) (snake_len s) (advance (dir s) h) 0 = Some False \<and>
          point_equal (advance (dir s) h) (fruit s))"

text \<open>
  The states the program can be in, with the number of fruits eaten on the way: after
  \<^verbatim>\<open>init_game\<close> none is eaten; from a state whose \<open>game_over\<close> flag is clear the
  main loop goes on, with a key press that turns the snake or with a tick.
\<close>

inductive reach :: "(nat \<Rightarrow> nat) \<Rightarrow> nat \<Rightarrow> game \<Rightarrow> bool" for rnd :: "nat \<Rightarrow> nat" where
  r_init: "init_game rnd (startup w h) = Some s \<Longrightarrow> reach rnd 0 s"
| r_turn: "reach rnd n s \<Longrightarrow> \<not> game_over s \<Longrightarrow> reach rnd n (change_direction d s)"
| r_tick: "reach rnd n s \<Longrightarrow> \<not> game_over s \<Longrightarrow> tick rnd s = Some s' \<Longrightarrow>
           reach rnd (if eats s then Suc n else n) s'"

text \<open>The segments of the snake, head first: the first \<open>snake_len\<close> cells of the array.\<close>

definition segments :: "game \<Rightarrow> Point list" where
  "segments s = take (snake_len s) (snake s)"

text \<open>
  A whole game, for the examples: \<open>play\<close> starts the program with the given arguments
  and then, for every entry of the list, turns the snake to that direction and ticks
  once. It returns the number of fruits eaten and the last state. \<open>stream_of\<close> makes a
  random stream of a list of values; after the list it goes on with zeros.
\<close>

fun play_from :: "(nat \<Rightarrow> nat) \<Rightarrow> nat \<times> game \<Rightarrow> Direction list \<Rightarrow> (nat \<times> game) option" where
  "play_from rnd (n, s) [] = Some (n, s)"
| "play_from rnd (n, s) (d # ds) =
     (if game_over s then None
      else do {
        s' \<leftarrow> tick rnd (change_direction d s);
        play_from rnd (if eats (change_direction d s) then Suc n else n, s') ds
      })"

definition play :: "(nat \<Rightarrow> nat) \<Rightarrow> int \<Rightarrow> int \<Rightarrow> Direction list \<Rightarrow> (nat \<times> game) option" where
  "play rnd w h ds = do { s \<leftarrow> init_game rnd (startup w h); play_from rnd (0, s) ds }"

definition stream_of :: "nat list \<Rightarrow> nat \<Rightarrow> nat" where
  "stream_of rs i = (if i < length rs then rs ! i else 0)"

section \<open>Notions for the specification\<close>

text \<open>
  The definitions of this section are not code of the program. They name what the
  theorems talk about: the cells the random stream offers, the states between the
  statements of \<^verbatim>\<open>step_snake\<close>, and the invariants of the reachable states.
\<close>

text \<open>
  The cell that the \<open>k\<close>-th round of \<^verbatim>\<open>place_fruit\<close> samples (\<open>k\<close> counted from 0) when
  \<^verbatim>\<open>place_fruit\<close> is called in state \<open>s\<close>, and the state in which \<^verbatim>\<open>place_fruit\<close>
  returns when it keeps that cell.
\<close>

definition nth_sample :: "(nat \<Rightarrow> nat) \<Rightarrow> game \<Rightarrow> nat \<Rightarrow> Point" where
  "nth_sample rnd s k =
     \<lparr>x = int (rnd (rand_pos s + 2 * k)) mod width s,
      y = int (rnd (rand_pos s + 2 * k + 1)) mod height s\<rparr>"

definition placed :: "(nat \<Rightarrow> nat) \<Rightarrow> game \<Rightarrow> nat \<Rightarrow> game" where
  "placed rnd s k = s\<lparr>fruit := nth_sample rnd s k, rand_pos := rand_pos s + 2 * (k + 1)\<rparr>"

text \<open>
  The array has its \<open>MAX_SNAKE\<close> cells, the snake has a head, and there is a cell after
  the last segment for the loop that moves the body.
\<close>

definition buffer_ok :: "game \<Rightarrow> bool" where
  "buffer_ok s = (length (snake s) = MAX_SNAKE \<and> 0 < snake_len s \<and> snake_len s < MAX_SNAKE)"

text \<open>
  The \<^verbatim>\<open>new_head\<close> of \<^verbatim>\<open>step_snake\<close>; the state after \<^verbatim>\<open>snake[0] = new_head\<close>, when
  every segment has moved one cell back in the array; and the state after
  \<^verbatim>\<open>snake_len++; score += 10;\<close>.
\<close>

definition new_head :: "game \<Rightarrow> Point" where
  "new_head s = advance (dir s) (snake s ! 0)"

definition shifted :: "game \<Rightarrow> game" where
  "shifted s =
     s\<lparr>snake := new_head s # take (snake_len s) (snake s) @ drop (Suc (snake_len s)) (snake s)\<rparr>"

definition grown :: "game \<Rightarrow> game" where
  "grown s = (shifted s)\<lparr>snake_len := snake_len s + 1, score := score s + 10\<rparr>"

text \<open>The state of \<^verbatim>\<open>init_game\<close> when it calls \<^verbatim>\<open>place_fruit\<close>.\<close>

definition laid :: "int \<Rightarrow> int \<Rightarrow> game" where
  "laid w h =
     (startup w h)\<lparr>score := 0, level := 1, delay_ms := INITIAL_DELAY_MS,
                   snake_len := STARTING_LENGTH,
                   snake := map (\<lambda>k. \<lparr>x = width (startup w h) div 2 - int k,
                                      y = height (startup w h) div 2\<rparr>) [0..<STARTING_LENGTH]
                            @ drop STARTING_LENGTH (snake (startup w h)),
                   dir := RIGHT\<rparr>"

text \<open>
  What holds in every reachable state: about the array and the segments, and, when \<open>n\<close>
  fruits have been eaten, about length, score, delay and level.
\<close>

definition snake_inv :: "game \<Rightarrow> bool" where
  "snake_inv s =
     (length (snake s) = MAX_SNAKE \<and> accepted (width s) (height s) \<and>
      STARTING_LENGTH \<le> snake_len s \<and> snake_len s \<le> MAX_SNAKE - 1 \<and>
      (game_over s \<or> snake_len s < MAX_SNAKE - 1) \<and>
      distinct (segments s) \<and> list_all (\<lambda>p. \<not> out_of_grid s p) (segments s))"

definition count_inv :: "nat \<Rightarrow> game \<Rightarrow> bool" where
  "count_inv n s =
     (snake_len s = STARTING_LENGTH + n \<and> score s = 10 * int n \<and>
      delay_ms s = INITIAL_DELAY_MS - 10 * (level s - 1) \<and> MIN_DELAY_MS \<le> delay_ms s)"

text \<open>The exact reverse of a direction: Up and Down swapped, Left and Right swapped.\<close>

fun reverse_of :: "Direction \<Rightarrow> Direction" where
  "reverse_of UP = DOWN"
| "reverse_of DOWN = UP"
| "reverse_of LEFT = RIGHT"
| "reverse_of RIGHT = LEFT"

section \<open>Example games\<close>

text \<open>
  A game on the smallest grid, 10 by 5, in which every tick eats a fruit. The snake
  starts on \<open>(5,2), (4,2), (3,2), (2,2)\<close>, and \<open>fill_moves\<close> leads its head through the
  46 other cells of the grid, one after the other. \<open>fill_rnd\<close> holds the values of
  \<^verbatim>\<open>rand()\<close>: two for each fruit, the coordinates of the cell the head enters next.
  \<open>demo k\<close> is the game after \<open>k\<close> ticks, \<open>demo_state k\<close> its state, \<open>demo_turned k\<close> that
  state after the key press for the next tick, and \<open>demo_stepped k\<close> the state after that
  tick. \<open>demo_last\<close> is the state after the 46th tick.
\<close>

definition fill_rnd :: "nat list" where
  "fill_rnd =
     [6, 2, 7, 2, 8, 2, 9, 2, 9, 3, 9, 4, 8, 4, 8, 3, 7, 3, 7, 4, 6, 4, 6, 3, 5, 3, 5, 4,
      4, 4, 4, 3, 3, 3, 3, 4, 2, 4, 2, 3, 1, 3, 1, 4, 0, 4, 0, 3, 0, 2, 1, 2, 1, 1, 0, 1,
      0, 0, 1, 0, 2, 0, 2, 1, 3, 1, 3, 0, 4, 0, 4, 1, 5, 1, 5, 0, 6, 0, 6, 1, 7, 1, 7, 0,
      8, 0, 8, 1, 9, 1, 9, 0]"

definition fill_moves :: "Direction list" where
  "fill_moves =
     [RIGHT, RIGHT, RIGHT, RIGHT, DOWN, DOWN, LEFT, UP, LEFT, DOWN, LEFT, UP, LEFT, DOWN,
      LEFT, UP, LEFT, DOWN, LEFT, UP, LEFT, DOWN, LEFT, UP, UP, RIGHT, UP, LEFT, UP, RIGHT,
      RIGHT, DOWN, RIGHT, UP, RIGHT, DOWN, RIGHT, UP, RIGHT, DOWN, RIGHT, UP, RIGHT, DOWN,
      RIGHT, UP]"

definition demo_rnd :: "nat \<Rightarrow> nat" where
  "demo_rnd = stream_of fill_rnd"

definition demo :: "nat \<Rightarrow> (nat \<times> game) option" where
  "demo k = play demo_rnd 10 5 (take k fill_moves)"

definition demo_state :: "nat \<Rightarrow> game" where
  "demo_state k = snd (the (demo k))"

definition demo_turned :: "nat \<Rightarrow> game" where
  "demo_turned k = change_direction (fill_moves ! k) (demo_state k)"

definition demo_stepped :: "nat \<Rightarrow> game" where
  "demo_stepped k = snd (the (step_snake demo_rnd (demo_turned k)))"

definition demo_last :: game where
  "demo_last = the (tick demo_rnd (change_direction UP (demo_stepped 44)))"

text \<open>What the long evaluation of the example game looks at in a state.\<close>

definition glimpse :: "game \<Rightarrow> bool \<times> bool \<times> int \<times> int \<times> nat" where
  "glimpse s = (game_over s, eats s, width s, height s, snake_len s)"

text \<open>The same start, then twice up: the head is on the top row and looks at the wall.\<close>

definition demo_wall :: game where
  "demo_wall = snd (the (play demo_rnd 10 5 [UP, UP]))"

text \<open>
  The same start, then up, left and a turn down: the snake of 4 segments has made a
  square, and the cell below its head is the cell of its tail.
\<close>

definition demo_self :: game where
  "demo_self = change_direction DOWN (snd (the (play demo_rnd 10 5 [UP, LEFT])))"

text \<open>A random stream that offers the cell \<open>(5, 2)\<close> every time on the 10 by 5 grid.\<close>

definition stuck_rnd :: "nat \<Rightarrow> nat" where
  "stuck_rnd i = (if even i then 5 else 2)"

definition stuck_state :: game where
  "stuck_state = the (init_game stuck_rnd (startup 10 5))"

text \<open>
  A state on the default grid, 30 by 20, shortly before the board is full. \<open>serpentine\<close>
  numbers the 600 cells row by row, to the right on even rows and to the left on odd
  ones, so that consecutive cells are neighbours; \<open>cell_index\<close> gives the number of a
  cell back. The snake of \<open>full_state\<close> lies on the cells 0 to 597 with its head on cell
  597, the fruit is on cell 598, to the left of the head, and the snake moves left.
  Score, level, delay and the count of random numbers are those of a game with 594
  fruits in which every fruit was placed at the first try.
\<close>

definition serpentine :: "nat \<Rightarrow> Point" where
  "serpentine j =
     \<lparr>x = (if even (j div 30) then int (j mod 30) else 29 - int (j mod 30)), y = int (j div 30)\<rparr>"

definition cell_index :: "Point \<Rightarrow> nat" where
  "cell_index p =
     nat (y p) * 30 + (if even (nat (y p)) then nat (x p) else 29 - nat (x p))"

definition full_state :: game where
  "full_state =
     \<lparr>width = 30, height = 20,
      snake = map (\<lambda>i. serpentine (597 - i)) [0..<598] @ replicate 2 \<lparr>x = 0, y = 0\<rparr>,
      snake_len = 598, dir = LEFT, fruit = serpentine 598,
      score = 5940, delay_ms = 50, level = 16, game_over = False, rand_pos = 1190\<rparr>"

definition zero_rnd :: "nat \<Rightarrow> nat" where
  "zero_rnd i = 0"

section \<open>The loops in closed form\<close>

text \<open>
  Each loop of the program computes what a list function computes, as long as its
  indices stay inside the array.
\<close>

lemma point_equal_iff: "point_equal a b \<longleftrightarrow> a = b"
  by (cases a, cases b) (auto simp: point_equal_def)

lemma rd_Some: "i < length buf \<Longrightarrow> rd buf i = Some (buf ! i)"
  by (simp add: rd_def)

lemma wr_Some: "i < length buf \<Longrightarrow> wr buf i p = Some (buf[i := p])"
  by (simp add: wr_def)

lemma self_coll_spec:
  "len \<le> length buf \<Longrightarrow> self_coll buf len p i = Some (p \<in> set (drop i (take len buf)))"
proof (induction buf len p i rule: self_coll.induct)
  case (1 buf len nh i)
  show ?case
  proof (cases "i < len")
    case True
    with "1.prems" have il: "i < length buf" by simp
    from True il have d: "drop i (take len buf) = buf ! i # drop (i + 1) (take len buf)"
      by (simp add: Cons_nth_drop_Suc [symmetric])
    show ?thesis
      using True il "1.IH" [OF True _ _ "1.prems", of "buf ! i"]
      by (subst self_coll.simps) (auto simp: rd_Some point_equal_iff d)
  next
    case False
    then show ?thesis
      by (subst self_coll.simps) simp
  qed
qed

lemma fruit_coll_spec:
  "len \<le> length buf \<Longrightarrow> fruit_coll buf len p i = Some (p \<in> set (drop i (take len buf)))"
proof (induction buf len p i rule: fruit_coll.induct)
  case (1 buf len f i)
  show ?case
  proof (cases "i < len")
    case True
    with "1.prems" have il: "i < length buf" by simp
    from True il have d: "drop i (take len buf) = buf ! i # drop (i + 1) (take len buf)"
      by (simp add: Cons_nth_drop_Suc [symmetric])
    show ?thesis
      using True il "1.IH" [OF True _ _ "1.prems", of "buf ! i"]
      by (subst fruit_coll.simps) (auto simp: rd_Some point_equal_iff d)
  next
    case False
    then show ?thesis
      by (subst fruit_coll.simps) simp
  qed
qed

lemma move_body_spec:
  "j < length buf \<Longrightarrow>
   move_body buf j = Some (take (Suc 0) buf @ take j buf @ drop (Suc j) buf)"
proof (induction j arbitrary: buf)
  case 0
  then show ?case by (cases buf) simp_all
next
  case (Suc j)
  let ?b = "buf[Suc j := buf ! j]"
  from Suc.prems have j: "j < length ?b" by simp
  have "move_body buf (Suc j) = move_body ?b j"
    using Suc.prems by (simp add: rd_Some wr_Some)
  also have "\<dots> = Some (take (Suc 0) ?b @ take j ?b @ drop (Suc j) ?b)"
    by (rule Suc.IH [OF j])
  also have "take (Suc 0) ?b = take (Suc 0) buf"
    by simp
  also have "take j ?b = take j buf"
    by simp
  also have "drop (Suc j) ?b = buf ! j # drop (Suc (Suc j)) buf"
    using Suc.prems by (simp add: drop_update_swap [symmetric] Cons_nth_drop_Suc [symmetric] upd_conv_take_nth_drop)
  also have "take j buf @ buf ! j # drop (Suc (Suc j)) buf = take (Suc j) buf @ drop (Suc (Suc j)) buf"
    using Suc.prems by (simp add: take_Suc_conv_app_nth)
  finally show ?case .
qed

lemma init_snake_spec:
  "len \<le> length buf \<Longrightarrow> i \<le> len \<Longrightarrow>
   init_snake buf len cx cy i =
     Some (take i buf @ map (\<lambda>k. \<lparr>x = cx - int k, y = cy\<rparr>) [i..<len] @ drop len buf)"
proof (induction buf len cx cy i rule: init_snake.induct)
  case (1 buf len cx cy i)
  show ?case
  proof (cases "i < len")
    case True
    let ?p = "\<lparr>x = cx - int i, y = cy\<rparr>"
    from True "1.prems" have il: "i < length buf" by simp
    have w: "wr buf i ?p = Some (buf[i := ?p])"
      using il by (rule wr_Some)
    have ih: "init_snake (buf[i := ?p]) len cx cy (i + 1) =
        Some (take (i + 1) (buf[i := ?p]) @ map (\<lambda>k. \<lparr>x = cx - int k, y = cy\<rparr>) [i + 1..<len]
              @ drop len (buf[i := ?p]))"
      using True "1.prems" by (intro "1.IH" [OF True w]) simp_all
    have t: "take (Suc i) (buf[i := ?p]) = take i buf @ [?p]"
      using il by (simp add: take_Suc_conv_app_nth)
    have d: "drop len (buf[i := ?p]) = drop len buf"
      using True by simp
    have u: "[i..<len] = i # [Suc i..<len]"
      using True by (simp add: upt_conv_Cons)
    show ?thesis
      using True il ih by (subst init_snake.simps) (simp add: wr_Some t d u)
  next
    case False
    with "1.prems" have "i = len" by simp
    then show ?thesis
      by (subst init_snake.simps) simp
  qed
qed

section \<open>What \<^verbatim>\<open>place_fruit\<close> returns\<close>

text \<open>
  \<^verbatim>\<open>place_fruit\<close> always returns. It keeps the first sampled cell that is free, and the
  last of its 10001 samples when none is.
\<close>

lemma segments_sample_fruit: "segments (sample_fruit rnd s) = segments s"
  by (simp add: segments_def sample_fruit_def)

lemma nth_sample_sample_fruit: "nth_sample rnd (sample_fruit rnd s) k = nth_sample rnd s (Suc k)"
  by (simp add: nth_sample_def sample_fruit_def)

lemma fruit_sample_fruit: "fruit (sample_fruit rnd s) = nth_sample rnd s 0"
  by (simp add: nth_sample_def sample_fruit_def)

lemma place_fruit_loop_spec:
  "snake_len s \<le> length (snake s) \<Longrightarrow>
   \<exists>k \<le> 10000 - t.
     place_fruit_loop rnd s t =
       Some (s\<lparr>fruit := nth_sample rnd s k, rand_pos := rand_pos s + 2 * (k + 1)\<rparr>) \<and>
     (\<forall>j < k. nth_sample rnd s j \<in> set (segments s)) \<and>
     (nth_sample rnd s k \<notin> set (segments s) \<or> k = 10000 - t)"
proof (induction rnd s t rule: place_fruit_loop.induct)
  case (1 rnd s t)
  let ?s1 = "sample_fruit rnd s"
  let ?coll = "nth_sample rnd s 0 \<in> set (segments s)"
  from "1.prems" have len1: "snake_len ?s1 \<le> length (snake ?s1)"
    by (simp add: sample_fruit_def)
  have fc: "fruit_coll (snake ?s1) (snake_len ?s1) (fruit ?s1) 0 = Some ?coll"
    using fruit_coll_spec [OF len1, of "fruit ?s1" 0]
    by (simp add: nth_sample_def segments_def sample_fruit_def)
  have s1_eq: "?s1 = s\<lparr>fruit := nth_sample rnd s 0, rand_pos := rand_pos s + 2 * (0 + 1)\<rparr>"
    by (simp add: sample_fruit_def nth_sample_def)
  consider (free) "\<not> ?coll" | (last) "?coll" "10000 < t + 1" | (again) "?coll" "\<not> 10000 < t + 1"
    by blast
  then show ?case
  proof cases
    case free
    have "place_fruit_loop rnd s t = Some ?s1"
      using free fc by (subst place_fruit_loop.simps) (simp add: Let_def)
    with free s1_eq show ?thesis
      by (intro exI [of _ 0]) simp
  next
    case last
    have "place_fruit_loop rnd s t = Some ?s1"
      using last fc by (subst place_fruit_loop.simps) (simp add: Let_def)
    with last s1_eq show ?thesis
      by (intro exI [of _ 0]) simp
  next
    case again
    have step: "place_fruit_loop rnd s t = place_fruit_loop rnd ?s1 (t + 1)"
      using again fc by (subst place_fruit_loop.simps) (simp add: Let_def)
    from "1.IH" [OF refl fc _ _ len1] again
    obtain k where k: "k \<le> 10000 - (t + 1)"
      and res: "place_fruit_loop rnd ?s1 (t + 1) =
          Some (?s1\<lparr>fruit := nth_sample rnd ?s1 k, rand_pos := rand_pos ?s1 + 2 * (k + 1)\<rparr>)"
      and before: "\<forall>j < k. nth_sample rnd ?s1 j \<in> set (segments ?s1)"
      and fin: "nth_sample rnd ?s1 k \<notin> set (segments ?s1) \<or> k = 10000 - (t + 1)"
      by auto
    have r: "?s1\<lparr>fruit := nth_sample rnd ?s1 k, rand_pos := rand_pos ?s1 + 2 * (k + 1)\<rparr> =
        s\<lparr>fruit := nth_sample rnd s (Suc k), rand_pos := rand_pos s + 2 * (Suc k + 1)\<rparr>"
      by (simp add: nth_sample_sample_fruit) (simp add: sample_fruit_def)
    have b: "\<forall>j < Suc k. nth_sample rnd s j \<in> set (segments s)"
    proof (intro allI impI)
      fix j assume "j < Suc k"
      then show "nth_sample rnd s j \<in> set (segments s)"
        using again(1) before
        by (cases j) (simp_all add: nth_sample_sample_fruit segments_sample_fruit)
    qed
    have f: "nth_sample rnd s (Suc k) \<notin> set (segments s) \<or> Suc k = 10000 - t"
      using fin k again(2) by (auto simp: nth_sample_sample_fruit segments_sample_fruit)
    from k again(2) have "Suc k \<le> 10000 - t" by simp
    with step res r b f show ?thesis
      by (intro exI [of _ "Suc k"]) simp
  qed
qed

lemma place_fruit_spec:
  assumes "snake_len s \<le> length (snake s)"
  shows "\<exists>k \<le> 10000. place_fruit rnd s = Some (placed rnd s k) \<and>
     (\<forall>j < k. nth_sample rnd s j \<in> set (segments s)) \<and>
     (nth_sample rnd s k \<notin> set (segments s) \<or> k = 10000)"
  using place_fruit_loop_spec [OF assms, of 0 rnd]
  by (simp add: place_fruit_def placed_def)

lemma last_sample_kept:
  fixes P :: "nat \<Rightarrow> bool"
  assumes "k \<le> 10000" "\<not> P k \<or> k = 10000"
  shows "(\<forall>i \<le> 10000. P i) \<longrightarrow> k = 10000"
  using assms by blast

lemma free_sample_iff:
  fixes P :: "nat \<Rightarrow> bool"
  assumes "k \<le> 10000" "\<forall>j < k. P j" "\<not> P k \<or> k = 10000"
  shows "(\<not> P k) = (\<exists>i \<le> 10000. \<not> P i)"
proof
  assume "\<not> P k"
  with assms(1) show "\<exists>i \<le> 10000. \<not> P i" by blast
next
  assume "\<exists>i \<le> 10000. \<not> P i"
  then obtain i where i: "i \<le> 10000" "\<not> P i" by blast
  show "\<not> P k"
  proof
    assume p: "P k"
    with assms(3) have "k = 10000" by simp
    with i p assms(2) show False
      by (cases "i = k") auto
  qed
qed

section \<open>The four ways through \<^verbatim>\<open>step_snake\<close>\<close>

text \<open>
  In a state whose segments fit the array, \<^verbatim>\<open>step_snake\<close> hits the wall, hits the
  snake, moves, or eats; \<open>tick_cases\<close> gives the state after each.
\<close>

lemma buffer_okD:
  "buffer_ok s \<Longrightarrow> length (snake s) = MAX_SNAKE"
  "buffer_ok s \<Longrightarrow> 0 < snake_len s"
  "buffer_ok s \<Longrightarrow> snake_len s < MAX_SNAKE"
  "buffer_ok s \<Longrightarrow> snake_len s < length (snake s)"
  "buffer_ok s \<Longrightarrow> 0 < length (snake s)"
  by (simp_all add: buffer_ok_def)

lemma rd_head: "buffer_ok s \<Longrightarrow> rd (snake s) 0 = Some (snake s ! 0)"
  by (simp add: rd_def buffer_ok_def)

lemma hd_segments: "buffer_ok s \<Longrightarrow> hd (segments s) = snake s ! 0"
  by (cases "snake s"; cases "snake_len s") (simp_all add: segments_def buffer_ok_def)

lemma segments_nonempty: "buffer_ok s \<Longrightarrow> segments s \<noteq> []"
  by (auto simp: segments_def buffer_ok_def)

lemma length_segments: "buffer_ok s \<Longrightarrow> length (segments s) = snake_len s"
  by (simp add: segments_def buffer_ok_def)

lemma last_not_in_butlast: "distinct ps \<Longrightarrow> ps \<noteq> [] \<Longrightarrow> last ps \<notin> set (butlast ps)"
  using distinct_append [of "butlast ps" "[last ps]"] by simp

lemma advance_one_cell: "\<bar>x (advance d p) - x p\<bar> + \<bar>y (advance d p) - y p\<bar> = 1"
  by (cases d) (simp_all add: advance_def)

lemma self_coll_segments:
  "buffer_ok s \<Longrightarrow> self_coll (snake s) (snake_len s) p 0 = Some (p \<in> set (segments s))"
  using self_coll_spec [of "snake_len s" "snake s" p 0]
  by (simp add: buffer_ok_def segments_def)

lemma shift_buffer:
  assumes "buffer_ok s"
  shows "do { buf1 \<leftarrow> move_body (snake s) (snake_len s); wr buf1 0 p } =
         Some (p # take (snake_len s) (snake s) @ drop (Suc (snake_len s)) (snake s))"
proof -
  let ?b = "take (Suc 0) (snake s) @ take (snake_len s) (snake s) @ drop (Suc (snake_len s)) (snake s)"
  have m: "move_body (snake s) (snake_len s) = Some ?b"
    using assms by (intro move_body_spec) (simp add: buffer_ok_def)
  obtain q qs where q: "snake s = q # qs"
    using buffer_okD(5) [OF assms] by (cases "snake s") auto
  have "wr ?b 0 p = Some (?b[0 := p])"
    by (rule wr_Some) (simp add: q)
  moreover have "?b[0 := p] = p # take (snake_len s) (snake s) @ drop (Suc (snake_len s)) (snake s)"
    by (simp add: q)
  ultimately show ?thesis
    using m by simp
qed

lemma step_snake_wall:
  "buffer_ok s \<Longrightarrow> out_of_grid s (new_head s) \<Longrightarrow> step_snake rnd s = Some (HitWall, s)"
  by (simp add: step_snake_def rd_head new_head_def Let_def)

lemma step_snake_self:
  "buffer_ok s \<Longrightarrow> \<not> out_of_grid s (new_head s) \<Longrightarrow> new_head s \<in> set (segments s) \<Longrightarrow>
   step_snake rnd s = Some (HitSelf, s)"
  using self_coll_segments [of s "new_head s"]
  by (simp add: step_snake_def rd_head new_head_def Let_def)

lemma step_snake_move:
  assumes ok: "buffer_ok s" and "\<not> out_of_grid s (new_head s)"
    and "new_head s \<notin> set (segments s)" and "new_head s \<noteq> fruit s"
  shows "step_snake rnd s = Some (Moved, shifted s)"
proof -
  have "step_snake rnd s =
      do { buf2 \<leftarrow> do { buf1 \<leftarrow> move_body (snake s) (snake_len s); wr buf1 0 (new_head s) };
           Some (Moved, s\<lparr>snake := buf2\<rparr>) }"
    using assms self_coll_segments [OF ok, of "new_head s"]
    by (simp add: step_snake_def rd_head new_head_def point_equal_iff Let_def)
  then show ?thesis
    by (simp add: shift_buffer [OF ok] shifted_def)
qed

lemma if_Some_pair: "(if c then Some (a, z) else Some (b, z)) = Some (if c then a else b, z)"
  by simp

lemma step_snake_eat_unfold:
  assumes ok: "buffer_ok s" and "\<not> out_of_grid s (new_head s)"
    and "new_head s \<notin> set (segments s)" and "new_head s = fruit s"
  shows "step_snake rnd s =
      do { s2 \<leftarrow> place_fruit rnd (grown s);
           Some (if snake_len (speed_up s2) \<ge> MAX_SNAKE - 1 then BoardFull else Moved, speed_up s2) }"
proof -
  have "step_snake rnd s =
      do { buf2 \<leftarrow> do { buf1 \<leftarrow> move_body (snake s) (snake_len s); wr buf1 0 (new_head s) };
           s2 \<leftarrow> place_fruit rnd (s\<lparr>snake := buf2, snake_len := snake_len s + 1, score := score s + 10\<rparr>);
           Some (if snake_len (speed_up s2) \<ge> MAX_SNAKE - 1 then BoardFull else Moved, speed_up s2) }"
    using assms self_coll_segments [OF ok, of "new_head s"]
    by (simp add: step_snake_def rd_head new_head_def point_equal_iff Let_def if_Some_pair)
  then show ?thesis
    by (simp add: shift_buffer [OF ok] grown_def shifted_def)
qed

lemma snake_len_speed_up: "snake_len (speed_up s) = snake_len s"
  by (simp add: speed_up_def)

lemma speed_up_fields:
  "width (speed_up s) = width s" "height (speed_up s) = height s"
  "snake (speed_up s) = snake s" "snake_len (speed_up s) = snake_len s"
  "dir (speed_up s) = dir s" "fruit (speed_up s) = fruit s"
  "score (speed_up s) = score s" "game_over (speed_up s) = game_over s"
  "rand_pos (speed_up s) = rand_pos s"
  by (simp_all add: speed_up_def)

lemma placed_fields:
  "width (placed rnd s k) = width s" "height (placed rnd s k) = height s"
  "snake (placed rnd s k) = snake s" "snake_len (placed rnd s k) = snake_len s"
  "dir (placed rnd s k) = dir s" "fruit (placed rnd s k) = nth_sample rnd s k"
  "score (placed rnd s k) = score s" "game_over (placed rnd s k) = game_over s"
  "delay_ms (placed rnd s k) = delay_ms s" "level (placed rnd s k) = level s"
  "rand_pos (placed rnd s k) = rand_pos s + 2 * (k + 1)"
  by (simp_all add: placed_def)

lemma shifted_fields:
  "width (shifted s) = width s" "height (shifted s) = height s"
  "snake_len (shifted s) = snake_len s"
  "dir (shifted s) = dir s" "fruit (shifted s) = fruit s"
  "score (shifted s) = score s" "game_over (shifted s) = game_over s"
  "delay_ms (shifted s) = delay_ms s" "level (shifted s) = level s"
  "rand_pos (shifted s) = rand_pos s"
  by (simp_all add: shifted_def)

lemma grown_fields:
  "snake_len (grown s) = Suc (snake_len s)"
  "score (grown s) = score s + 10"
  "width (grown s) = width s" "height (grown s) = height s"
  "dir (grown s) = dir s" "fruit (grown s) = fruit s"
  "delay_ms (grown s) = delay_ms s" "level (grown s) = level s"
  "game_over (grown s) = game_over s" "rand_pos (grown s) = rand_pos s"
  by (simp_all add: grown_def shifted_def)

lemma change_direction_fields:
  "width (change_direction d s) = width s" "height (change_direction d s) = height s"
  "snake_len (change_direction d s) = snake_len s"
  "game_over (change_direction d s) = game_over s"
  by (simp_all add: change_direction_def)

lemma segments_grown: "buffer_ok s \<Longrightarrow> segments (grown s) = new_head s # segments s"
  by (simp add: segments_def grown_def shifted_def buffer_ok_def)

lemma segments_shifted:
  "buffer_ok s \<Longrightarrow> segments (shifted s) = new_head s # butlast (segments s)"
  by (cases "snake_len s") (simp_all add: segments_def shifted_def buffer_ok_def butlast_take)

lemma segments_after_eat:
  "buffer_ok s \<Longrightarrow>
   segments ((speed_up (placed rnd (grown s) k))\<lparr>game_over := g\<rparr>) = new_head s # segments s"
  using segments_grown [of s]
  by (simp add: segments_def speed_up_fields placed_fields)

lemma length_snake_grown: "buffer_ok s \<Longrightarrow> length (snake (grown s)) = MAX_SNAKE"
  by (simp add: grown_def shifted_def buffer_ok_def)

lemma length_snake_shifted: "buffer_ok s \<Longrightarrow> length (snake (shifted s)) = MAX_SNAKE"
  by (simp add: shifted_def buffer_ok_def)

lemma step_snake_eat:
  assumes ok: "buffer_ok s" and "\<not> out_of_grid s (new_head s)"
    and "new_head s \<notin> set (segments s)" and "new_head s = fruit s"
  shows "\<exists>k \<le> 10000.
     step_snake rnd s =
       Some (if snake_len s + 1 \<ge> MAX_SNAKE - 1 then BoardFull else Moved,
             speed_up (placed rnd (grown s) k)) \<and>
     (\<forall>j < k. nth_sample rnd (grown s) j \<in> set (segments (grown s))) \<and>
     (nth_sample rnd (grown s) k \<notin> set (segments (grown s)) \<or> k = 10000)"
proof -
  have "snake_len (grown s) \<le> length (snake (grown s))"
    using ok by (simp add: length_snake_grown grown_fields) (simp add: buffer_ok_def)
  from place_fruit_spec [OF this, of rnd]
  obtain k where "k \<le> 10000" "place_fruit rnd (grown s) = Some (placed rnd (grown s) k)"
    "\<forall>j < k. nth_sample rnd (grown s) j \<in> set (segments (grown s))"
    "nth_sample rnd (grown s) k \<notin> set (segments (grown s)) \<or> k = 10000"
    by blast
  then show ?thesis
    using step_snake_eat_unfold [OF assms, of rnd]
    by (intro exI [of _ k]) (simp add: snake_len_speed_up placed_def grown_fields)
qed

lemma eats_iff:
  "buffer_ok s \<Longrightarrow>
   eats s \<longleftrightarrow> \<not> out_of_grid s (new_head s) \<and> new_head s \<notin> set (segments s) \<and> new_head s = fruit s"
  using self_coll_segments [of s "new_head s"]
  by (auto simp: eats_def rd_head new_head_def point_equal_iff)

lemma tick_cases [consumes 2, case_names crash move eat]:
  assumes ok: "buffer_ok s" and t: "tick rnd s = Some s'"
  obtains
    (crash) "out_of_grid s (new_head s) \<or> new_head s \<in> set (segments s)"
      "\<not> eats s" "s' = s\<lparr>game_over := True\<rparr>"
  | (move) "\<not> out_of_grid s (new_head s)" "new_head s \<notin> set (segments s)"
      "new_head s \<noteq> fruit s" "\<not> eats s" "s' = shifted s"
  | (eat) k where "\<not> out_of_grid s (new_head s)" "new_head s \<notin> set (segments s)"
      "new_head s = fruit s" "eats s" "k \<le> 10000"
      "s' = (speed_up (placed rnd (grown s) k))\<lparr>game_over :=
              (if snake_len s + 1 \<ge> MAX_SNAKE - 1 then True else game_over s)\<rparr>"
      "\<forall>j < k. nth_sample rnd (grown s) j \<in> set (segments (grown s))"
      "nth_sample rnd (grown s) k \<notin> set (segments (grown s)) \<or> k = 10000"
proof -
  consider (w) "out_of_grid s (new_head s)"
    | (b) "\<not> out_of_grid s (new_head s)" "new_head s \<in> set (segments s)"
    | (m) "\<not> out_of_grid s (new_head s)" "new_head s \<notin> set (segments s)" "new_head s \<noteq> fruit s"
    | (e) "\<not> out_of_grid s (new_head s)" "new_head s \<notin> set (segments s)" "new_head s = fruit s"
    by blast
  then show thesis
  proof cases
    case w
    with t step_snake_wall [OF ok w, of rnd] eats_iff [OF ok] show thesis
      by (intro crash) (auto simp: tick_def)
  next
    case b
    with t step_snake_self [OF ok b, of rnd] eats_iff [OF ok] show thesis
      by (intro crash) (auto simp: tick_def)
  next
    case m
    with t step_snake_move [OF ok m, of rnd] eats_iff [OF ok] show thesis
      by (intro move) (auto simp: tick_def)
  next
    case e
    from step_snake_eat [OF ok e, of rnd] obtain k where k: "k \<le> 10000"
      and st: "step_snake rnd s =
         Some (if snake_len s + 1 \<ge> MAX_SNAKE - 1 then BoardFull else Moved,
               speed_up (placed rnd (grown s) k))"
      and b: "\<forall>j < k. nth_sample rnd (grown s) j \<in> set (segments (grown s))"
      and f: "nth_sample rnd (grown s) k \<notin> set (segments (grown s)) \<or> k = 10000"
      by blast
    have "s' = (speed_up (placed rnd (grown s) k))\<lparr>game_over :=
              (if snake_len s + 1 \<ge> MAX_SNAKE - 1 then True else game_over s)\<rparr>"
      using t st by (auto simp: tick_def speed_up_def placed_def grown_fields split: if_splits)
    with e k b f eats_iff [OF ok] show thesis
      by (intro eat [of k]) auto
  qed
qed

lemma tick_total: "buffer_ok s \<Longrightarrow> \<exists>s'. tick rnd s = Some s'"
proof -
  assume ok: "buffer_ok s"
  consider (w) "out_of_grid s (new_head s)"
    | (b) "\<not> out_of_grid s (new_head s)" "new_head s \<in> set (segments s)"
    | (m) "\<not> out_of_grid s (new_head s)" "new_head s \<notin> set (segments s)" "new_head s \<noteq> fruit s"
    | (e) "\<not> out_of_grid s (new_head s)" "new_head s \<notin> set (segments s)" "new_head s = fruit s"
    by blast
  then show ?thesis
  proof cases
    case w
    then show ?thesis using step_snake_wall [OF ok w, of rnd] by (simp add: tick_def)
  next
    case b
    then show ?thesis using step_snake_self [OF ok b, of rnd] by (simp add: tick_def)
  next
    case m
    then show ?thesis using step_snake_move [OF ok m, of rnd] by (simp add: tick_def)
  next
    case e
    from step_snake_eat [OF ok e, of rnd] obtain r s2 where "step_snake rnd s = Some (r, s2)"
      by blast
    then show ?thesis by (simp add: tick_def)
  qed
qed

lemma step_snake_total: "buffer_ok s \<Longrightarrow> \<exists>r s'. step_snake rnd s = Some (r, s')"
  using tick_total [of s rnd] by (auto simp: tick_def bind_eq_Some_conv)

lemma tick_keeps_grid:
  assumes "buffer_ok s" "tick rnd s = Some s'"
  shows "width s' = width s \<and> height s' = height s"
  using assms
  by (cases rule: tick_cases)
    (simp_all add: shifted_fields speed_up_fields placed_fields grown_fields)

section \<open>Invariants of the reachable states\<close>

text \<open>
  \<^verbatim>\<open>init_game\<close> establishes \<open>snake_inv\<close> and \<open>count_inv\<close>; turns and ticks keep them.
\<close>

lemma out_of_grid_cong:
  "width s' = width s \<Longrightarrow> height s' = height s \<Longrightarrow> out_of_grid s' p = out_of_grid s p"
  by (simp add: out_of_grid_def)

lemma buffer_ok_running: "snake_inv s \<Longrightarrow> \<not> game_over s \<Longrightarrow> buffer_ok s"
  by (auto simp: snake_inv_def buffer_ok_def STARTING_LENGTH_def)

lemma snake_inv_crash: "snake_inv s \<Longrightarrow> snake_inv (s\<lparr>game_over := True\<rparr>)"
  by (simp add: snake_inv_def segments_def out_of_grid_def)

lemma snake_inv_move:
  assumes inv: "snake_inv s" and ok: "buffer_ok s"
    and nw: "\<not> out_of_grid s (new_head s)" and ns: "new_head s \<notin> set (segments s)"
  shows "snake_inv (shifted s)"
proof -
  have seg: "segments (shifted s) = new_head s # butlast (segments s)"
    by (rule segments_shifted [OF ok])
  have d: "distinct (segments (shifted s))"
    using inv ns by (auto simp: seg snake_inv_def distinct_butlast dest: in_set_butlastD)
  have g: "list_all (\<lambda>p. \<not> out_of_grid (shifted s) p) (segments (shifted s))"
    using inv nw
    by (auto simp: seg snake_inv_def list_all_iff out_of_grid_cong [of "shifted s" s] shifted_fields
        dest: in_set_butlastD)
  show ?thesis
    using inv d g by (simp add: snake_inv_def shifted_fields length_snake_shifted [OF ok])
qed

lemma snake_inv_eat:
  assumes inv: "snake_inv s" and run: "\<not> game_over s" and ok: "buffer_ok s"
    and nw: "\<not> out_of_grid s (new_head s)" and ns: "new_head s \<notin> set (segments s)"
    and fin: "g \<or> snake_len s + 1 < MAX_SNAKE - 1"
  shows "snake_inv ((speed_up (placed rnd (grown s) k))\<lparr>game_over := g\<rparr>)"
    (is "snake_inv ?s'")
proof -
  have seg: "segments ?s' = new_head s # segments s"
    by (rule segments_after_eat [OF ok])
  have wh: "width ?s' = width s" "height ?s' = height s"
    by (simp_all add: speed_up_fields placed_fields grown_fields)
  have len: "snake_len ?s' = Suc (snake_len s)"
    by (simp add: speed_up_fields placed_fields grown_fields)
  have buf: "length (snake ?s') = MAX_SNAKE"
    by (simp add: speed_up_fields placed_fields length_snake_grown [OF ok])
  have d: "distinct (segments ?s')"
    using inv ns by (simp add: seg snake_inv_def)
  have g: "list_all (\<lambda>p. \<not> out_of_grid ?s' p) (segments ?s')"
    using inv nw by (simp add: seg snake_inv_def list_all_iff out_of_grid_cong [OF wh])
  have l: "STARTING_LENGTH \<le> snake_len ?s' \<and> snake_len ?s' \<le> MAX_SNAKE - 1 \<and>
      (game_over ?s' \<or> snake_len ?s' < MAX_SNAKE - 1)"
    using inv run fin unfolding len by (auto simp: snake_inv_def)
  show ?thesis
    unfolding snake_inv_def using inv d g l buf by (simp add: wh snake_inv_def)
qed

lemma snake_inv_tick:
  assumes inv: "snake_inv s" and run: "\<not> game_over s" and t: "tick rnd s = Some s'"
  shows "snake_inv s'"
proof -
  have ok: "buffer_ok s"
    by (rule buffer_ok_running [OF inv run])
  from ok t show ?thesis
  proof (cases rule: tick_cases)
    case crash
    then show ?thesis using inv by (simp add: snake_inv_crash)
  next
    case move
    then show ?thesis using snake_inv_move [OF inv ok] by simp
  next
    case (eat k)
    then show ?thesis
      using snake_inv_eat [OF inv run ok, of
          "if snake_len s + 1 \<ge> MAX_SNAKE - 1 then True else game_over s" rnd k]
      by (simp split: if_splits)
  qed
qed

lemma snake_inv_turn: "snake_inv s \<Longrightarrow> snake_inv (change_direction d s)"
  by (simp add: snake_inv_def change_direction_def segments_def out_of_grid_def)

lemma accepted_startup: "accepted (width (startup w h)) (height (startup w h))"
  by (simp add: startup_def accepted_def DEFAULT_WIDTH_def DEFAULT_HEIGHT_def)

lemma laid_fields:
  "width (laid w h) = width (startup w h)" "height (laid w h) = height (startup w h)"
  "snake_len (laid w h) = STARTING_LENGTH" "score (laid w h) = 0" "level (laid w h) = 1"
  "delay_ms (laid w h) = INITIAL_DELAY_MS" "dir (laid w h) = RIGHT"
  "rand_pos (laid w h) = 0"
  by (simp_all add: laid_def startup_def)

lemma length_snake_laid: "length (snake (laid w h)) = MAX_SNAKE"
  by (simp add: laid_def startup_def STARTING_LENGTH_def MAX_SNAKE_def DEFAULT_WIDTH_def
      DEFAULT_HEIGHT_def)

lemma segments_laid:
  "segments (laid w h) =
     map (\<lambda>k. \<lparr>x = width (startup w h) div 2 - int k, y = height (startup w h) div 2\<rparr>)
       [0..<STARTING_LENGTH]"
  by (simp add: segments_def laid_def)

lemma init_game_spec:
  "\<exists>k \<le> 10000.
     init_game rnd (startup w h) = Some ((placed rnd (laid w h) k)\<lparr>game_over := False\<rparr>) \<and>
     (\<forall>j < k. nth_sample rnd (laid w h) j \<in> set (segments (laid w h))) \<and>
     (nth_sample rnd (laid w h) k \<notin> set (segments (laid w h)) \<or> k = 10000)"
proof -
  let ?s0 = "startup w h"
  have l: "STARTING_LENGTH \<le> length (snake ?s0)"
    by (simp add: startup_def STARTING_LENGTH_def MAX_SNAKE_def DEFAULT_WIDTH_def
        DEFAULT_HEIGHT_def)
  have i: "init_snake (snake ?s0) STARTING_LENGTH (width ?s0 div 2) (height ?s0 div 2) 0 =
      Some (snake (laid w h))"
    using init_snake_spec [OF l, of 0] by (simp add: laid_def)
  have e: "init_game rnd ?s0 =
      do { s2 \<leftarrow> place_fruit rnd (laid w h); Some (s2\<lparr>game_over := False\<rparr>) }"
    by (simp add: init_game_def Let_def i) (simp add: laid_def)
  have "snake_len (laid w h) \<le> length (snake (laid w h))"
    using l by (simp add: laid_fields length_snake_laid startup_def)
  from place_fruit_spec [OF this, of rnd] e show ?thesis
    by auto
qed

lemma snake_inv_laid: "snake_inv ((placed rnd (laid w h) k)\<lparr>game_over := False\<rparr>)"
  (is "snake_inv ?s")
proof -
  let ?W = "width (startup w h)" and ?H = "height (startup w h)"
  have acc: "accepted ?W ?H"
    by (rule accepted_startup)
  have seg: "segments ?s = map (\<lambda>k. \<lparr>x = ?W div 2 - int k, y = ?H div 2\<rparr>) [0..<STARTING_LENGTH]"
    using segments_laid [of w h] by (simp add: segments_def placed_fields)
  have u: "[0..<STARTING_LENGTH] = [0, 1, 2, 3]"
    by (simp add: STARTING_LENGTH_def upt_rec)
  have d: "distinct (segments ?s)"
    by (simp add: seg u)
  from acc have "10 \<le> ?W" "5 \<le> ?H"
    by (simp_all add: accepted_def)
  then have b: "3 \<le> ?W div 2" "?W div 2 < ?W" "0 \<le> ?H div 2" "?H div 2 < ?H"
    by arith+
  have g: "list_all (\<lambda>p. \<not> out_of_grid ?s p) (segments ?s)"
    using b by (simp add: seg u out_of_grid_def placed_fields laid_fields)
  have n: "STARTING_LENGTH < MAX_SNAKE - 1"
    by (simp add: STARTING_LENGTH_def MAX_SNAKE_def DEFAULT_WIDTH_def DEFAULT_HEIGHT_def)
  show ?thesis
    using acc d g n
    by (simp add: snake_inv_def placed_fields laid_fields length_snake_laid)
qed

lemma count_inv_laid: "count_inv 0 ((placed rnd (laid w h) k)\<lparr>game_over := False\<rparr>)"
  by (simp add: count_inv_def placed_fields laid_fields INITIAL_DELAY_MS_def MIN_DELAY_MS_def)

lemma count_inv_turn: "count_inv n s \<Longrightarrow> count_inv n (change_direction d s)"
  by (simp add: count_inv_def change_direction_def)

lemma count_inv_speed_up:
  assumes "delay_ms s = INITIAL_DELAY_MS - 10 * (level s - 1)" "MIN_DELAY_MS \<le> delay_ms s"
  shows "delay_ms (speed_up s) = INITIAL_DELAY_MS - 10 * (level (speed_up s) - 1) \<and>
         MIN_DELAY_MS \<le> delay_ms (speed_up s)"
  using assms by (auto simp: speed_up_def INITIAL_DELAY_MS_def MIN_DELAY_MS_def)

lemma count_inv_tick:
  assumes c: "count_inv n s" and ok: "buffer_ok s" and t: "tick rnd s = Some s'"
  shows "count_inv (if eats s then Suc n else n) s'"
  using ok t
proof (cases rule: tick_cases)
  case crash
  with c show ?thesis by (simp add: count_inv_def)
next
  case move
  with c show ?thesis by (simp add: count_inv_def shifted_fields)
next
  case (eat k)
  let ?p = "placed rnd (grown s) k"
  have "delay_ms ?p = INITIAL_DELAY_MS - 10 * (level ?p - 1)" "MIN_DELAY_MS \<le> delay_ms ?p"
    using c by (simp_all add: count_inv_def placed_fields grown_fields)
  from count_inv_speed_up [OF this] c eat(3,4,6) show ?thesis
    by (simp add: count_inv_def speed_up_fields placed_fields grown_fields)
qed

lemma reach_inv: "reach rnd n s \<Longrightarrow> snake_inv s \<and> count_inv n s"
proof (induction rule: reach.induct)
  case (r_init w h s)
  with init_game_spec [of rnd w h] show ?case
    by (auto simp: snake_inv_laid count_inv_laid)
next
  case (r_turn n s d)
  then show ?case by (simp add: snake_inv_turn count_inv_turn)
next
  case (r_tick n s s')
  then show ?case
    using snake_inv_tick [of s rnd s'] count_inv_tick [of n s rnd s'] buffer_ok_running [of s]
    by simp
qed

lemma reach_running:
  "reach rnd n s \<Longrightarrow> \<not> game_over s \<Longrightarrow> buffer_ok s \<and> distinct (segments s)"
  using reach_inv [of rnd n s] buffer_ok_running [of s] by (simp add: snake_inv_def)

lemma reach_segments:
  "reach rnd n s \<Longrightarrow>
   distinct (segments s) \<and> (\<forall>p \<in> set (segments s). \<not> out_of_grid s p) \<and>
   4 \<le> snake_len s \<and> snake_len s \<le> MAX_SNAKE - 1"
  using reach_inv [of rnd n s] by (simp add: snake_inv_def list_all_iff STARTING_LENGTH_def)

lemma tick_speed:
  assumes r: "reach rnd n s" and run: "\<not> game_over s" and t: "tick rnd s = Some s'"
  shows "(if eats s \<and> (n + 1) mod 3 = 2 \<and> MIN_DELAY_MS < delay_ms s
          then delay_ms s' = delay_ms s - 10 \<and> level s' = level s + 1
          else delay_ms s' = delay_ms s \<and> level s' = level s)"
proof -
  from reach_inv [OF r] have len: "snake_len s = STARTING_LENGTH + n"
    by (simp add: count_inv_def)
  from reach_running [OF r run] have ok: "buffer_ok s" ..
  have m: "((STARTING_LENGTH + n + 1) mod 3 = 0) = ((n + 1) mod 3 = 2)"
    unfolding STARTING_LENGTH_def by presburger
  from ok t show ?thesis
  proof (cases rule: tick_cases)
    case crash
    then show ?thesis by simp
  next
    case move
    then show ?thesis by (simp add: shifted_fields)
  next
    case (eat k)
    have "snake_len (placed rnd (grown s) k) mod 3 = 0 \<longleftrightarrow> (n + 1) mod 3 = 2"
      using m by (simp add: placed_fields grown_fields len)
    moreover have "delay_ms (placed rnd (grown s) k) = delay_ms s"
      "level (placed rnd (grown s) k) = level s"
      by (simp_all add: placed_fields grown_fields)
    ultimately show ?thesis
      using eat(4,6) by (simp add: speed_up_def)
  qed
qed

section \<open>The example games, evaluated\<close>

text \<open>
  What \<open>play\<close> returns is reachable. The facts about the example games are computed
  from the definitions of the model.
\<close>

lemma play_from_reach:
  "reach rnd n s \<Longrightarrow> play_from rnd (n, s) ds = Some (n', s') \<Longrightarrow> reach rnd n' s'"
proof (induction ds arbitrary: n s)
  case Nil
  then show ?case by simp
next
  case (Cons d ds)
  from Cons.prems(2) have run: "\<not> game_over s"
    by (simp split: if_splits)
  with Cons.prems(2) obtain s1 where t: "tick rnd (change_direction d s) = Some s1"
    and rest: "play_from rnd (if eats (change_direction d s) then Suc n else n, s1) ds = Some (n', s')"
    by (auto simp: bind_eq_Some_conv)
  have "reach rnd n (change_direction d s)"
    using Cons.prems(1) run by (rule r_turn)
  moreover have "\<not> game_over (change_direction d s)"
    using run by (simp add: change_direction_def)
  ultimately have "reach rnd (if eats (change_direction d s) then Suc n else n) s1"
    using t by (rule r_tick)
  then show ?case
    using rest by (rule Cons.IH)
qed

lemma play_reach: "play rnd w h ds = Some (n, s) \<Longrightarrow> reach rnd n s"
  by (auto simp: play_def bind_eq_Some_conv intro: play_from_reach r_init)

lemma demo_reach: "map_option fst (demo k) = Some n \<Longrightarrow> reach demo_rnd n (demo_state k)"
  by (cases "demo k") (auto simp: demo_state_def demo_def intro: play_reach)

lemma demo_eaten_0: "map_option fst (demo 0) = Some 0"
  by code_simp

lemma demo_eaten_1: "map_option fst (demo 1) = Some 1"
  by code_simp

lemma demo_eaten_2: "map_option fst (demo 2) = Some 2"
  by code_simp

lemma demo_running_2: "\<not> game_over (demo_state 2)"
  by code_simp

lemma demo_init: "init_game demo_rnd (startup 10 5) = Some (demo_state 0)"
  by code_simp

lemma demo_tick_0: "tick demo_rnd (demo_state 0) = Some (demo_state 1)"
  by code_simp

lemma demo_tick_1: "tick demo_rnd (demo_state 1) = Some (demo_state 2)"
  by code_simp

lemma demo_state_0_facts:
  "buffer_ok (demo_state 0) \<and> \<not> game_over (demo_state 0) \<and>
   \<not> out_of_grid (demo_state 0) (new_head (demo_state 0)) \<and>
   new_head (demo_state 0) \<notin> set (segments (demo_state 0)) \<and>
   new_head (demo_state 0) = fruit (demo_state 0) \<and> eats (demo_state 0)"
  by code_simp

lemma demo_state_1_facts:
  "\<not> game_over (demo_state 1) \<and> eats (demo_state 1) \<and> delay_ms (demo_state 1) = 200 \<and>
   level (demo_state 1) = 1"
  by code_simp

lemma demo_state_2_facts:
  "\<not> game_over (demo_state 2) \<and> eats (demo_state 2) \<and> delay_ms (demo_state 2) = 190 \<and>
   level (demo_state 2) = 2 \<and> map_option delay_ms (tick demo_rnd (demo_state 2)) = Some 190 \<and>
   map_option level (tick demo_rnd (demo_state 2)) = Some 2"
  by code_simp

lemma demo_turn_up_facts:
  "buffer_ok (change_direction UP (demo_state 0)) \<and>
   distinct (segments (change_direction UP (demo_state 0))) \<and>
   \<not> out_of_grid (change_direction UP (demo_state 0)) (new_head (change_direction UP (demo_state 0))) \<and>
   new_head (change_direction UP (demo_state 0)) \<notin> set (segments (change_direction UP (demo_state 0))) \<and>
   new_head (change_direction UP (demo_state 0)) \<noteq> fruit (change_direction UP (demo_state 0))"
  by code_simp

lemma demo_state_1_segments:
  "snake_len (demo_state 0) = 4 \<and>
   segments (demo_state 1) ! 2 \<noteq> segments (demo_state 0) ! 3 \<and>
   segments (demo_state 1) ! 3 \<noteq> segments (demo_state 0) ! 3 \<and>
   segments (demo_state 1) ! 4 = segments (demo_state 0) ! 3 \<and>
   last (segments (demo_state 0)) = segments (demo_state 0) ! 3"
  by code_simp

lemma demo_wall_facts: "buffer_ok demo_wall \<and> out_of_grid demo_wall (new_head demo_wall)"
  by code_simp

lemma stuck_sample: "nth_sample stuck_rnd (laid 10 5) j = \<lparr>x = 5, y = 2\<rparr>"
  by (simp add: nth_sample_def stuck_rnd_def laid_fields startup_def accepted_def)

lemma stuck_segments:
  "segments (laid 10 5) = [\<lparr>x = 5, y = 2\<rparr>, \<lparr>x = 4, y = 2\<rparr>, \<lparr>x = 3, y = 2\<rparr>, \<lparr>x = 2, y = 2\<rparr>]"
  by (simp add: segments_laid STARTING_LENGTH_def upt_rec startup_def accepted_def)

lemma stuck_state_init: "init_game stuck_rnd (startup 10 5) = Some stuck_state"
  using init_game_spec [of stuck_rnd 10 5] by (auto simp: stuck_state_def)

lemma segments_stuck_state:
  "segments stuck_state = [\<lparr>x = 5, y = 2\<rparr>, \<lparr>x = 4, y = 2\<rparr>, \<lparr>x = 3, y = 2\<rparr>, \<lparr>x = 2, y = 2\<rparr>]"
proof -
  from init_game_spec [of stuck_rnd 10 5] stuck_state_init obtain k
    where eq: "stuck_state = (placed stuck_rnd (laid 10 5) k)\<lparr>game_over := False\<rparr>"
    by auto
  have "segments ((placed stuck_rnd (laid 10 5) k)\<lparr>game_over := False\<rparr>) = segments (laid 10 5)"
    by (simp add: segments_def placed_fields)
  then have "segments stuck_state = segments (laid 10 5)"
    unfolding eq [symmetric] .
  then show ?thesis
    by (simp add: stuck_segments)
qed

lemma demo_self_facts:
  "buffer_ok demo_self \<and> \<not> out_of_grid demo_self (new_head demo_self) \<and>
   new_head demo_self = last (segments demo_self) \<and> segments demo_self \<noteq> []"
  by code_simp

lemma demo_44:
  "map_option (\<lambda>(n, s). (n, glimpse (change_direction RIGHT s),
       map_option (\<lambda>(r, s'). (r, glimpse (change_direction UP s')))
         (step_snake demo_rnd (change_direction RIGHT s))))
     (demo 44) =
   Some (44, (False, True, 10, 5, 48), Some (Moved, (False, True, 10, 5, 49)))"
  by code_simp

lemma fill_moves_44: "fill_moves ! 44 = RIGHT"
  by (simp add: fill_moves_def)

lemma demo_turned_44:
  "reach demo_rnd 44 (demo_turned 44) \<and> glimpse (demo_turned 44) = (False, True, 10, 5, 48) \<and>
   step_snake demo_rnd (demo_turned 44) = Some (Moved, demo_stepped 44) \<and>
   glimpse (change_direction UP (demo_stepped 44)) = (False, True, 10, 5, 49)"
proof -
  from demo_44 obtain s where d: "demo 44 = Some (44, s)"
    and g: "glimpse (change_direction RIGHT s) = (False, True, 10, 5, 48)"
    and st: "map_option (\<lambda>(r, s'). (r, glimpse (change_direction UP s')))
         (step_snake demo_rnd (change_direction RIGHT s)) = Some (Moved, (False, True, 10, 5, 49))"
    by (cases "demo 44") auto
  from d have s: "demo_state 44 = s"
    by (simp add: demo_state_def)
  then have t: "demo_turned 44 = change_direction RIGHT s"
    by (simp add: demo_turned_def fill_moves_44)
  from d have "reach demo_rnd 44 (demo_state 44)"
    by (intro demo_reach) simp
  moreover from g have "\<not> game_over (demo_state 44)"
    by (simp add: glimpse_def s change_direction_fields)
  ultimately have r: "reach demo_rnd 44 (demo_turned 44)"
    unfolding demo_turned_def by (rule r_turn)
  from st obtain s' where st': "step_snake demo_rnd (change_direction RIGHT s) = Some (Moved, s')"
    and g': "glimpse (change_direction UP s') = (False, True, 10, 5, 49)"
    by (cases "step_snake demo_rnd (change_direction RIGHT s)") auto
  from st' have "demo_stepped 44 = s'"
    by (simp add: demo_stepped_def t)
  with r g st' g' show ?thesis
    by (simp add: t)
qed

lemma demo_stepped_44: "reach demo_rnd 45 (demo_stepped 44)"
proof -
  from demo_turned_44 have "tick demo_rnd (demo_turned 44) = Some (demo_stepped 44)"
    by (simp add: tick_def)
  moreover from demo_turned_44 have "reach demo_rnd 44 (demo_turned 44)"
    "\<not> game_over (demo_turned 44)" "eats (demo_turned 44)"
    by (simp_all add: glimpse_def)
  ultimately show ?thesis
    using r_tick [of demo_rnd 44 "demo_turned 44" "demo_stepped 44"] by simp
qed

section \<open>The state with 598 segments\<close>

text \<open>
  \<open>serpentine\<close> is injective and stays in the grid, so \<open>full_state\<close> satisfies the
  invariant of the reachable states, and the cell in front of its head is free.
\<close>

lemma mirror_column: "m < 30 \<Longrightarrow> 29 - nat (29 - int m) = m"
  by arith

lemma cell_index_row_column:
  "m < 30 \<Longrightarrow>
   cell_index \<lparr>x = (if even q then int m else 29 - int m), y = int q\<rparr> = q * 30 + m"
  by (simp add: cell_index_def mirror_column)

lemma cell_index_serpentine: "cell_index (serpentine j) = j"
proof -
  have "j mod 30 < 30" by simp
  from cell_index_row_column [OF this, of "j div 30"] show ?thesis
    unfolding serpentine_def by simp
qed

lemma serpentine_inj:
  assumes "serpentine i = serpentine j"
  shows "i = j"
proof -
  from assms have "cell_index (serpentine i) = cell_index (serpentine j)"
    by (rule arg_cong)
  then show ?thesis
    by (simp only: cell_index_serpentine)
qed

lemma serpentine_in_grid:
  assumes "j < 600"
  shows "0 \<le> x (serpentine j) \<and> x (serpentine j) < 30 \<and> 0 \<le> y (serpentine j) \<and> y (serpentine j) < 20"
proof -
  define m where "m = j mod 30"
  define q where "q = j div 30"
  have m: "m < 30" by (simp add: m_def)
  from assms have q: "q < 20" by (simp add: q_def)
  have "x (serpentine j) = (if even q then int m else 29 - int m)" "y (serpentine j) = int q"
    by (simp_all add: serpentine_def m_def q_def)
  with m q show ?thesis
    by (simp split: if_splits)
qed

lemma segments_full_state: "segments full_state = map (\<lambda>i. serpentine (597 - i)) [0..<598]"
  by (simp add: segments_def full_state_def)

lemma buffer_ok_full_state: "buffer_ok full_state"
  by (simp add: buffer_ok_def full_state_def MAX_SNAKE_def DEFAULT_WIDTH_def DEFAULT_HEIGHT_def)

lemma new_head_full_state: "new_head full_state = serpentine 598"
proof -
  have "snake full_state ! 0 = serpentine 597"
    by (simp add: full_state_def nth_append)
  then show ?thesis
    by (simp add: new_head_def advance_def serpentine_def) (simp add: full_state_def)
qed

lemma new_head_free_full_state: "new_head full_state \<notin> set (segments full_state)"
  by (auto simp: new_head_full_state segments_full_state dest: serpentine_inj)

lemma new_head_in_grid_full_state: "\<not> out_of_grid full_state (new_head full_state)"
  using serpentine_in_grid [of 598]
  by (simp add: new_head_full_state out_of_grid_def) (simp add: full_state_def)

lemma snake_inv_full_state: "snake_inv full_state"
proof -
  have "inj_on (\<lambda>i. serpentine (597 - i)) (set [0..<598])"
    by (rule inj_onI) (auto dest!: serpentine_inj)
  then have d: "distinct (segments full_state)"
    by (simp add: segments_full_state distinct_map)
  have g: "list_all (\<lambda>p. \<not> out_of_grid full_state p) (segments full_state)"
  proof -
    have "\<not> out_of_grid full_state (serpentine (597 - i))" for i
    proof -
      have "597 - i < 600" by arith
      from serpentine_in_grid [OF this] show ?thesis
        by (simp add: out_of_grid_def) (simp add: full_state_def)
    qed
    then show ?thesis
      by (simp add: segments_full_state list_all_iff)
  qed
  have "length (snake full_state) = MAX_SNAKE"
    using buffer_ok_full_state by (simp add: buffer_ok_def)
  with d g show ?thesis
    by (simp add: snake_inv_def)
      (simp add: full_state_def accepted_def MAX_SNAKE_def DEFAULT_WIDTH_def DEFAULT_HEIGHT_def
        STARTING_LENGTH_def)
qed

section \<open>The claims\<close>

text \<open>
  Claim C1, as the code has it. \<^verbatim>\<open>step_snake\<close> tests \<^verbatim>\<open>snake_len % 3 == 0\<close> on the length
  after the fruit is eaten, and the snake starts with 4 segments. So, in a reachable
  running state in which \<open>n\<close> fruits have been eaten, a tick lowers the delay by 10 and
  raises the level by 1 exactly when it eats a fruit, that fruit is the 2nd, 5th, 8th, ...
  (\<open>(n + 1) mod 3 = 2\<close>) and the delay is above 50; every other tick leaves delay and
  level as they are. The delay never goes below 50, so a delay that is not above 50
  equals 50.
\<close>

theorem speed_up_when_length_divisible_by_three:
  assumes "reach rnd n s" and "\<not> game_over s" and "tick rnd s = Some s'"
  shows "(if eats s \<and> (n + 1) mod 3 = 2 \<and> MIN_DELAY_MS < delay_ms s
          then delay_ms s' = delay_ms s - 10 \<and> level s' = level s + 1
          else delay_ms s' = delay_ms s \<and> level s' = level s) \<and>
         MIN_DELAY_MS \<le> delay_ms s \<and> MIN_DELAY_MS \<le> delay_ms s'"
proof -
  have "reach rnd (if eats s then Suc n else n) s'"
    using assms by (rule r_tick)
  from reach_inv [OF this] reach_inv [OF assms(1)] tick_speed [OF assms] show ?thesis
    by (simp add: count_inv_def)
qed

theorem speed_up_when_length_divisible_by_three_witness:
  "reach demo_rnd 1 (demo_state 1) \<and> \<not> game_over (demo_state 1) \<and>
   tick demo_rnd (demo_state 1) = Some (demo_state 2) \<and>
   eats (demo_state 1) \<and> (1 + 1) mod 3 = (2 :: nat) \<and> MIN_DELAY_MS < delay_ms (demo_state 1) \<and>
   delay_ms (demo_state 2) = delay_ms (demo_state 1) - 10 \<and>
   level (demo_state 2) = level (demo_state 1) + 1"
proof -
  have r: "reach demo_rnd 1 (demo_state 1)"
    using demo_eaten_1 by (rule demo_reach)
  have g: "\<not> game_over (demo_state 1)"
    using demo_state_1_facts by simp
  from speed_up_when_length_divisible_by_three [OF r g demo_tick_1] r g demo_tick_1
    demo_state_1_facts
  show ?thesis
    by (simp add: MIN_DELAY_MS_def)
qed

text \<open>
  The claim names the 3rd, 6th, 9th, ... fruit. In the game on the 10 by 5 grid that
  \<open>demo\<close> plays, the 2nd fruit (eaten in \<open>demo_state 1\<close>, after one fruit) takes the delay
  from 200 to 190 and the level from 1 to 2, and the 3rd fruit (eaten in \<open>demo_state 2\<close>)
  leaves them at 190 and 2.
\<close>

theorem speed_up_at_second_fruit_not_third:
  "reach demo_rnd 1 (demo_state 1) \<and> \<not> game_over (demo_state 1) \<and> eats (demo_state 1) \<and>
   tick demo_rnd (demo_state 1) = Some (demo_state 2) \<and>
   delay_ms (demo_state 1) = 200 \<and> level (demo_state 1) = 1 \<and>
   delay_ms (demo_state 2) = 190 \<and> level (demo_state 2) = 2 \<and>
   reach demo_rnd 2 (demo_state 2) \<and> \<not> game_over (demo_state 2) \<and> eats (demo_state 2) \<and>
   map_option delay_ms (tick demo_rnd (demo_state 2)) = Some 190 \<and>
   map_option level (tick demo_rnd (demo_state 2)) = Some 2"
  using demo_reach [OF demo_eaten_1] demo_reach [OF demo_eaten_2] demo_tick_1
    demo_state_1_facts demo_state_2_facts
  by simp

text \<open>
  Claim C2 at a concrete game. The claim asks for a game over with cause board-full when
  the length reaches \<open>width * height - 1\<close>. \<^verbatim>\<open>step_snake\<close> tests
  \<^verbatim>\<open>snake_len >= MAX_SNAKE-1\<close>, and \<open>MAX_SNAKE\<close> is the product of the default sizes, 600,
  whatever the grid of the session is. On the 10 by 5 grid, in the reachable state
  \<open>demo_turned 44\<close> the snake has 48 segments and eats its 45th fruit; its length becomes
  \<open>49 = 10 * 5 - 1\<close>, and \<^verbatim>\<open>step_snake\<close> returns 1: the game goes on.
\<close>

theorem board_full_not_reported_on_small_grid:
  "reach demo_rnd 44 (demo_turned 44) \<and> \<not> game_over (demo_turned 44) \<and>
   eats (demo_turned 44) \<and> width (demo_turned 44) = 10 \<and> height (demo_turned 44) = 5 \<and>
   snake_len (demo_turned 44) = 48 \<and>
   step_snake demo_rnd (demo_turned 44) = Some (Moved, demo_stepped 44) \<and>
   ret_val Moved = 1 \<and>
   int (snake_len (demo_stepped 44)) = width (demo_stepped 44) * height (demo_stepped 44) - 1"
  using demo_turned_44 by (simp add: glimpse_def change_direction_fields)

text \<open>
  Claim C3. The array \<open>snake\<close> has \<open>MAX_SNAKE\<close> cells, and the model returns \<open>None\<close> as
  soon as an index outside it is read or written. For every pair of arguments
  \<^verbatim>\<open>init_game\<close> returns a state; every reachable state has a grid that satisfies the
  constraints \<open>width \<ge> 10\<close>, \<open>height \<ge> 5\<close>, \<open>width * height \<le> 10000\<close> and an array of
  \<open>MAX_SNAKE\<close> cells; and while the game is not over, \<open>snake_len\<close>, the largest index
  a tick uses, is below \<open>MAX_SNAKE\<close> and \<^verbatim>\<open>step_snake\<close> returns a result: no index used
  during any reachable sequence of ticks leaves the array. (\<^verbatim>\<open>draw\<close> reads the cells
  below \<open>snake_len\<close> only.)
\<close>

theorem snake_buffer_indices_in_range:
  "(\<exists>s0. init_game rnd (startup w h) = Some s0 \<and>
      (accepted w h \<longrightarrow> width s0 = w \<and> height s0 = h)) \<and>
   (reach rnd n s \<longrightarrow>
      length (snake s) = MAX_SNAKE \<and> accepted (width s) (height s) \<and>
      (\<not> game_over s \<longrightarrow> snake_len s < MAX_SNAKE \<and> (\<exists>r s'. step_snake rnd s = Some (r, s'))))"
proof (intro conjI impI)
  from init_game_spec [of rnd w h] obtain k
    where "init_game rnd (startup w h) = Some ((placed rnd (laid w h) k)\<lparr>game_over := False\<rparr>)"
    by blast
  then show "\<exists>s0. init_game rnd (startup w h) = Some s0 \<and>
      (accepted w h \<longrightarrow> width s0 = w \<and> height s0 = h)"
    by (simp add: placed_fields laid_fields startup_def)
next
  assume "reach rnd n s"
  then show "length (snake s) = MAX_SNAKE" "accepted (width s) (height s)"
    using reach_inv [of rnd n s] by (simp_all add: snake_inv_def)
next
  assume "reach rnd n s" "\<not> game_over s"
  then have ok: "buffer_ok s"
    by (simp add: reach_running)
  then show "snake_len s < MAX_SNAKE"
    by (simp add: buffer_ok_def)
  from ok show "\<exists>r s'. step_snake rnd s = Some (r, s')"
    by (rule step_snake_total)
qed

theorem snake_buffer_indices_in_range_witness:
  "accepted 10 5 \<and> reach demo_rnd 2 (demo_state 2) \<and> \<not> game_over (demo_state 2) \<and>
   (\<exists>s0. init_game demo_rnd (startup 10 5) = Some s0 \<and> width s0 = 10 \<and> height s0 = 5) \<and>
   snake_len (demo_state 2) < MAX_SNAKE \<and>
   (\<exists>r s'. step_snake demo_rnd (demo_state 2) = Some (r, s'))"
proof -
  have r: "reach demo_rnd 2 (demo_state 2)"
    using demo_eaten_2 by (rule demo_reach)
  have a: "accepted 10 5"
    by (simp add: accepted_def)
  from snake_buffer_indices_in_range [of demo_rnd 10 5 2 "demo_state 2"] r a demo_running_2
  show ?thesis
    by simp
qed

text \<open>
  Claim C4, as the code has it. \<^verbatim>\<open>place_fruit\<close> samples at most 10001 cells and keeps
  the last one when all of them are occupied. So, after the placement in \<^verbatim>\<open>init_game\<close>
  and after the placement in a tick that eats a fruit, the fruit is off the snake exactly
  when one of the 10001 cells that the random stream offers is free; and when all 10001
  are occupied, the fruit is on the last of them, the cell with number 10000.
\<close>

theorem fruit_free_iff_some_sample_free:
  "(init_game rnd (startup w h) = Some s0 \<longrightarrow>
      ((fruit s0 \<notin> set (segments s0)) =
       (\<exists>i \<le> 10000. nth_sample rnd (laid w h) i \<notin> set (segments s0))) \<and>
      ((\<forall>i \<le> 10000. nth_sample rnd (laid w h) i \<in> set (segments s0)) \<longrightarrow>
       fruit s0 = nth_sample rnd (laid w h) 10000)) \<and>
   (reach rnd n s \<longrightarrow> \<not> game_over s \<longrightarrow> eats s \<longrightarrow> tick rnd s = Some s' \<longrightarrow>
      ((fruit s' \<notin> set (segments s')) =
       (\<exists>i \<le> 10000. nth_sample rnd (grown s) i \<notin> set (segments s'))) \<and>
      ((\<forall>i \<le> 10000. nth_sample rnd (grown s) i \<in> set (segments s')) \<longrightarrow>
       fruit s' = nth_sample rnd (grown s) 10000))"
proof -
  have at_init:
    "((fruit s0 \<notin> set (segments s0)) =
      (\<exists>i \<le> 10000. nth_sample rnd (laid w h) i \<notin> set (segments s0))) \<and>
     ((\<forall>i \<le> 10000. nth_sample rnd (laid w h) i \<in> set (segments s0)) \<longrightarrow>
      fruit s0 = nth_sample rnd (laid w h) 10000)"
    if i: "init_game rnd (startup w h) = Some s0"
  proof -
    from init_game_spec [of rnd w h] i obtain k where k: "k \<le> 10000"
      and s0: "s0 = (placed rnd (laid w h) k)\<lparr>game_over := False\<rparr>"
      and b: "\<forall>j < k. nth_sample rnd (laid w h) j \<in> set (segments (laid w h))"
      and f: "nth_sample rnd (laid w h) k \<notin> set (segments (laid w h)) \<or> k = 10000"
      by auto
    have seg: "segments s0 = segments (laid w h)"
      by (simp add: s0 segments_def placed_fields)
    have fr: "fruit s0 = nth_sample rnd (laid w h) k"
      by (simp add: s0 placed_fields)
    from free_sample_iff [of k "\<lambda>j. nth_sample rnd (laid w h) j \<in> set (segments (laid w h))",
        OF k b] f
    have "(fruit s0 \<notin> set (segments s0)) =
        (\<exists>i \<le> 10000. nth_sample rnd (laid w h) i \<notin> set (segments s0))"
      by (simp add: seg fr)
    moreover
    from last_sample_kept [of k "\<lambda>j. nth_sample rnd (laid w h) j \<in> set (segments (laid w h))",
        OF k f]
    have "(\<forall>i \<le> 10000. nth_sample rnd (laid w h) i \<in> set (segments s0)) \<longrightarrow>
        fruit s0 = nth_sample rnd (laid w h) 10000"
      by (simp add: seg fr)
    ultimately show ?thesis ..
  qed
  have at_tick:
    "((fruit s' \<notin> set (segments s')) =
      (\<exists>i \<le> 10000. nth_sample rnd (grown s) i \<notin> set (segments s'))) \<and>
     ((\<forall>i \<le> 10000. nth_sample rnd (grown s) i \<in> set (segments s')) \<longrightarrow>
      fruit s' = nth_sample rnd (grown s) 10000)"
    if r: "reach rnd n s" and run: "\<not> game_over s" and e: "eats s"
      and t: "tick rnd s = Some s'"
  proof -
    from reach_running [OF r run] have ok: "buffer_ok s" ..
    from ok t show ?thesis
    proof (cases rule: tick_cases)
      case crash
      with e show ?thesis by simp
    next
      case move
      with e show ?thesis by simp
    next
      case (eat k)
      have seg: "segments s' = segments (grown s)"
        by (simp add: eat(6) segments_def speed_up_fields placed_fields)
      have fr: "fruit s' = nth_sample rnd (grown s) k"
        by (simp add: eat(6) speed_up_fields placed_fields)
      from free_sample_iff [of k "\<lambda>j. nth_sample rnd (grown s) j \<in> set (segments (grown s))",
          OF eat(5) eat(7)] eat(8)
      have "(fruit s' \<notin> set (segments s')) =
          (\<exists>i \<le> 10000. nth_sample rnd (grown s) i \<notin> set (segments s'))"
        by (simp add: seg fr)
      moreover
      from last_sample_kept [of k "\<lambda>j. nth_sample rnd (grown s) j \<in> set (segments (grown s))",
          OF eat(5) eat(8)]
      have "(\<forall>i \<le> 10000. nth_sample rnd (grown s) i \<in> set (segments s')) \<longrightarrow>
          fruit s' = nth_sample rnd (grown s) 10000"
        by (simp add: seg fr)
      ultimately show ?thesis ..
    qed
  qed
  from at_init at_tick show ?thesis
    by blast
qed

theorem fruit_free_iff_some_sample_free_witness:
  "init_game demo_rnd (startup 10 5) = Some (demo_state 0) \<and>
   reach demo_rnd 0 (demo_state 0) \<and> \<not> game_over (demo_state 0) \<and> eats (demo_state 0) \<and>
   tick demo_rnd (demo_state 0) = Some (demo_state 1) \<and>
   (fruit (demo_state 0) \<notin> set (segments (demo_state 0))) =
     (\<exists>i \<le> 10000. nth_sample demo_rnd (laid 10 5) i \<notin> set (segments (demo_state 0))) \<and>
   (fruit (demo_state 1) \<notin> set (segments (demo_state 1))) =
     (\<exists>i \<le> 10000. nth_sample demo_rnd (grown (demo_state 0)) i \<notin> set (segments (demo_state 1))) \<and>
   init_game stuck_rnd (startup 10 5) = Some stuck_state \<and>
   \<not> (\<exists>i \<le> 10000. nth_sample stuck_rnd (laid 10 5) i \<notin> set (segments stuck_state)) \<and>
   fruit stuck_state \<in> set (segments stuck_state) \<and>
   fruit stuck_state = nth_sample stuck_rnd (laid 10 5) 10000"
proof -
  have r: "reach demo_rnd 0 (demo_state 0)"
    using demo_eaten_0 by (rule demo_reach)
  from fruit_free_iff_some_sample_free
    [of demo_rnd 10 5 "demo_state 0" 0 "demo_state 0" "demo_state 1"]
    r demo_init demo_tick_0 demo_state_0_facts
  have d: "(fruit (demo_state 0) \<notin> set (segments (demo_state 0))) =
     (\<exists>i \<le> 10000. nth_sample demo_rnd (laid 10 5) i \<notin> set (segments (demo_state 0)))"
    "(fruit (demo_state 1) \<notin> set (segments (demo_state 1))) =
     (\<exists>i \<le> 10000. nth_sample demo_rnd (grown (demo_state 0)) i \<notin> set (segments (demo_state 1)))"
    by blast+
  have o: "\<forall>i \<le> 10000. nth_sample stuck_rnd (laid 10 5) i \<in> set (segments stuck_state)"
    by (simp add: stuck_sample segments_stuck_state)
  from fruit_free_iff_some_sample_free [of stuck_rnd 10 5 stuck_state] stuck_state_init o
  have l: "fruit stuck_state = nth_sample stuck_rnd (laid 10 5) 10000"
    and m: "fruit stuck_state \<in> set (segments stuck_state)"
    by blast+
  from o have "\<not> (\<exists>i \<le> 10000. nth_sample stuck_rnd (laid 10 5) i \<notin> set (segments stuck_state))"
    by blast
  with d l m r demo_init demo_tick_0 demo_state_0_facts stuck_state_init show ?thesis
    by blast
qed

text \<open>
  With a random stream that offers the cell of the head, \<open>(5, 2)\<close> on the 10 by 5 grid,
  every time, \<^verbatim>\<open>init_game\<close> gives up after 10001 tries and leaves the fruit on the head
  of the snake.
\<close>

theorem fruit_on_snake_after_10001_tries:
  "init_game stuck_rnd (startup 10 5) \<noteq> None \<and>
   reach stuck_rnd 0 (the (init_game stuck_rnd (startup 10 5))) \<and>
   fruit (the (init_game stuck_rnd (startup 10 5))) =
     hd (segments (the (init_game stuck_rnd (startup 10 5)))) \<and>
   fruit (the (init_game stuck_rnd (startup 10 5)))
     \<in> set (segments (the (init_game stuck_rnd (startup 10 5))))"
proof -
  from init_game_spec [of stuck_rnd 10 5] obtain k
    where i: "init_game stuck_rnd (startup 10 5) =
      Some ((placed stuck_rnd (laid 10 5) k)\<lparr>game_over := False\<rparr>)"
    by blast
  let ?s = "(placed stuck_rnd (laid 10 5) k)\<lparr>game_over := False\<rparr>"
  have seg: "segments ?s = segments (laid 10 5)"
    by (simp add: segments_def placed_fields)
  have fr: "fruit ?s = \<lparr>x = 5, y = 2\<rparr>"
    by (simp add: placed_fields stuck_sample)
  have "reach stuck_rnd 0 ?s"
    using i by (rule r_init)
  then show ?thesis
    by (simp add: i seg fr stuck_segments)
qed

text \<open>
  Claim C5 at a concrete game. In every reachable state the segments are pairwise
  distinct, lie in the grid and are at least 4 (lemma \<open>reach_segments\<close>). The upper bound
  \<open>width * height - 1\<close> on the length fails, because the game stops at \<open>MAX_SNAKE - 1\<close>
  segments and not at \<open>width * height - 1\<close>: on the 10 by 5 grid the game that \<open>demo\<close>
  plays reaches, with its 46th tick and 46th fruit, the state \<open>demo_last\<close>, in which the
  snake has 50 segments and covers the whole grid.
\<close>

theorem snake_covers_whole_small_grid:
  "reach demo_rnd 46 demo_last \<and> width demo_last = 10 \<and> height demo_last = 5 \<and>
   snake_len demo_last = 50 \<and>
   \<not> int (snake_len demo_last) \<le> width demo_last * height demo_last - 1"
proof -
  let ?s = "change_direction UP (demo_stepped 44)"
  from demo_turned_44 have g: "\<not> game_over ?s" "eats ?s" "width ?s = 10" "height ?s = 5"
    by (simp_all add: glimpse_def)
  then have g0: "\<not> game_over (demo_stepped 44)"
    by (simp add: change_direction_fields)
  have r: "reach demo_rnd 45 ?s"
    using demo_stepped_44 g0 by (rule r_turn)
  from reach_running [OF r g(1)] have ok: "buffer_ok ?s" ..
  from tick_total [OF ok, of demo_rnd] obtain s' where t: "tick demo_rnd ?s = Some s'"
    by blast
  then have l: "demo_last = s'"
    by (simp add: demo_last_def)
  from r_tick [OF r g(1) t] g(2) have r': "reach demo_rnd 46 s'"
    by simp
  from reach_inv [OF r'] have "snake_len s' = 50"
    by (simp add: count_inv_def STARTING_LENGTH_def)
  with r' tick_keeps_grid [OF ok t] g(3,4) show ?thesis
    by (simp add: l)
qed

text \<open>
  Claim C6, as the code has it. In a state whose segments fit the array,
  \<^verbatim>\<open>step_snake\<close> returns at its first \<^verbatim>\<open>return 0\<close> exactly when the new head is outside
  the grid, and at its second exactly when the new head is inside the grid and equals
  one of the \<open>snake_len\<close> segments (the tail included); in both cases the state is
  unchanged. It returns 0 in these two cases and at its third \<^verbatim>\<open>return 0\<close>, the stop
  for a full board, and in no other. The third is taken only in a tick without collision
  in which the snake eats the fruit; on the default grid, 30 by 20, it is taken exactly
  when the new length reaches \<open>width * height - 1\<close>. When it is taken on another grid
  is not part of this statement.
\<close>

theorem step_snake_game_over_iff:
  assumes ok: "buffer_ok s"
  shows "\<exists>r s'. step_snake rnd s = Some (r, s') \<and>
     (r = HitWall \<longleftrightarrow> out_of_grid s (new_head s)) \<and>
     (r = HitSelf \<longleftrightarrow> \<not> out_of_grid s (new_head s) \<and> new_head s \<in> set (segments s)) \<and>
     (ret_val r = 0 \<longleftrightarrow> r = HitWall \<or> r = HitSelf \<or> r = BoardFull) \<and>
     (r = BoardFull \<longrightarrow> eats s) \<and>
     (width s = DEFAULT_WIDTH \<and> height s = DEFAULT_HEIGHT \<longrightarrow>
        (r = BoardFull \<longleftrightarrow> eats s \<and> width s * height s - 1 \<le> int (snake_len s) + 1)) \<and>
     (r = HitWall \<or> r = HitSelf \<longrightarrow> s' = s)"
proof -
  have cap: "width s = DEFAULT_WIDTH \<and> height s = DEFAULT_HEIGHT \<Longrightarrow>
      (width s * height s - 1 \<le> int (snake_len s) + 1) = (MAX_SNAKE - 1 \<le> snake_len s + 1)"
    by (auto simp: MAX_SNAKE_def DEFAULT_WIDTH_def DEFAULT_HEIGHT_def)
  consider (w) "out_of_grid s (new_head s)"
    | (b) "\<not> out_of_grid s (new_head s)" "new_head s \<in> set (segments s)"
    | (m) "\<not> out_of_grid s (new_head s)" "new_head s \<notin> set (segments s)" "new_head s \<noteq> fruit s"
    | (e) "\<not> out_of_grid s (new_head s)" "new_head s \<notin> set (segments s)" "new_head s = fruit s"
    by blast
  then show ?thesis
  proof cases
    case w
    with step_snake_wall [OF ok w, of rnd] eats_iff [OF ok] show ?thesis by simp
  next
    case b
    with step_snake_self [OF ok b, of rnd] eats_iff [OF ok] show ?thesis by simp
  next
    case m
    with step_snake_move [OF ok m, of rnd] eats_iff [OF ok] show ?thesis by simp
  next
    case e
    from step_snake_eat [OF ok e, of rnd] obtain k
      where "step_snake rnd s =
         Some (if snake_len s + 1 \<ge> MAX_SNAKE - 1 then BoardFull else Moved,
               speed_up (placed rnd (grown s) k))"
      by blast
    with e eats_iff [OF ok] cap show ?thesis by simp
  qed
qed

theorem step_snake_game_over_iff_witness:
  "buffer_ok demo_wall \<and> out_of_grid demo_wall (new_head demo_wall) \<and>
   step_snake demo_rnd demo_wall = Some (HitWall, demo_wall) \<and> ret_val HitWall = 0 \<and>
   buffer_ok demo_self \<and> \<not> out_of_grid demo_self (new_head demo_self) \<and>
   new_head demo_self = last (segments demo_self) \<and>
   step_snake demo_rnd demo_self = Some (HitSelf, demo_self) \<and> ret_val HitSelf = 0 \<and>
   buffer_ok full_state \<and> width full_state = DEFAULT_WIDTH \<and> height full_state = DEFAULT_HEIGHT \<and>
   eats full_state \<and> width full_state * height full_state - 1 \<le> int (snake_len full_state) + 1 \<and>
   map_option fst (step_snake zero_rnd full_state) = Some BoardFull"
proof -
  from demo_wall_facts have h: "buffer_ok demo_wall" and w: "out_of_grid demo_wall (new_head demo_wall)"
    by simp_all
  from step_snake_game_over_iff [OF h, of demo_rnd] obtain r s'
    where "step_snake demo_rnd demo_wall = Some (r, s')"
      and "r = HitWall \<longleftrightarrow> out_of_grid demo_wall (new_head demo_wall)"
      and "r = HitWall \<or> r = HitSelf \<longrightarrow> s' = demo_wall"
    by blast
  with w have wall: "step_snake demo_rnd demo_wall = Some (HitWall, demo_wall)"
    by simp
  from demo_self_facts have h2: "buffer_ok demo_self"
    and i2: "\<not> out_of_grid demo_self (new_head demo_self)"
    and t2: "new_head demo_self = last (segments demo_self)"
    and n2: "segments demo_self \<noteq> []"
    by blast+
  from t2 n2 have m2: "new_head demo_self \<in> set (segments demo_self)"
    by simp
  from step_snake_game_over_iff [OF h2, of demo_rnd] obtain r2 s2
    where "step_snake demo_rnd demo_self = Some (r2, s2)"
      and "r2 = HitSelf \<longleftrightarrow>
        \<not> out_of_grid demo_self (new_head demo_self) \<and> new_head demo_self \<in> set (segments demo_self)"
      and "r2 = HitWall \<or> r2 = HitSelf \<longrightarrow> s2 = demo_self"
    by blast
  with i2 m2 have self: "step_snake demo_rnd demo_self = Some (HitSelf, demo_self)"
    by simp
  have g: "width full_state = DEFAULT_WIDTH" "height full_state = DEFAULT_HEIGHT"
    "width full_state * height full_state - 1 \<le> int (snake_len full_state) + 1"
    by (simp_all add: full_state_def DEFAULT_WIDTH_def DEFAULT_HEIGHT_def)
  have f: "new_head full_state = fruit full_state"
    by (simp add: new_head_full_state) (simp add: full_state_def)
  have e: "eats full_state"
    using eats_iff [OF buffer_ok_full_state] new_head_in_grid_full_state new_head_free_full_state f
    by simp
  from step_snake_game_over_iff [OF buffer_ok_full_state, of zero_rnd] obtain r3 s3
    where "step_snake zero_rnd full_state = Some (r3, s3)"
      and "width full_state = DEFAULT_WIDTH \<and> height full_state = DEFAULT_HEIGHT \<longrightarrow>
        (r3 = BoardFull \<longleftrightarrow>
          eats full_state \<and> width full_state * height full_state - 1 \<le> int (snake_len full_state) + 1)"
    by blast
  with g e have full: "map_option fst (step_snake zero_rnd full_state) = Some BoardFull"
    by simp
  from h w wall h2 i2 t2 self buffer_ok_full_state g e full show ?thesis
    by simp
qed

text \<open>
  The claim has the game end only on a collision. In \<open>full_state\<close>, a 30 by 20 grid
  with a snake of 598 segments that winds through the rows, a state with the invariants
  of the reachable states after 594 fruits, the new head is inside the grid and on no
  segment; the snake eats the fruit, its length becomes 599, and \<^verbatim>\<open>step_snake\<close>
  returns 0.
\<close>

theorem board_full_game_over_without_collision:
  "snake_inv full_state \<and> count_inv 594 full_state \<and> \<not> game_over full_state \<and>
   \<not> out_of_grid full_state (new_head full_state) \<and>
   new_head full_state \<notin> set (segments full_state) \<and>
   map_option (ret_val \<circ> fst) (step_snake zero_rnd full_state) = Some 0 \<and>
   snake_len full_state = 598 \<and>
   map_option (snake_len \<circ> snd) (step_snake zero_rnd full_state) = Some 599"
proof -
  have f: "new_head full_state = fruit full_state"
    by (simp add: new_head_full_state) (simp add: full_state_def)
  from step_snake_eat [OF buffer_ok_full_state new_head_in_grid_full_state
      new_head_free_full_state f, of zero_rnd]
  obtain k where "step_snake zero_rnd full_state =
      Some (if snake_len full_state + 1 \<ge> MAX_SNAKE - 1 then BoardFull else Moved,
            speed_up (placed zero_rnd (grown full_state) k))"
    by blast
  moreover have "snake_len full_state = 598" "\<not> game_over full_state"
    by (simp_all add: full_state_def)
  moreover have "count_inv 594 full_state"
    by (simp add: count_inv_def full_state_def STARTING_LENGTH_def INITIAL_DELAY_MS_def
        MIN_DELAY_MS_def)
  ultimately show ?thesis
    using snake_inv_full_state new_head_in_grid_full_state new_head_free_full_state
    by (simp add: speed_up_fields placed_fields grown_fields MAX_SNAKE_def DEFAULT_WIDTH_def
        DEFAULT_HEIGHT_def)
qed

text \<open>
  Claim C7, as the code has it. In a state whose segments fit the array, when the new
  head is inside the grid, on no segment and on the fruit, \<^verbatim>\<open>step_snake\<close> returns
  with the length raised by 1 and the score by 10. The new segments are the new head
  followed by all the old segments: every old segment keeps its cell, one index further
  back, and the cell of the old tail is occupied by the new last segment, the one with
  index \<open>snake_len s\<close>.
\<close>

theorem eat_grows_snake:
  assumes ok: "buffer_ok s"
    and nw: "\<not> out_of_grid s (new_head s)" and ns: "new_head s \<notin> set (segments s)"
    and f: "new_head s = fruit s"
  shows "\<exists>r s'. step_snake rnd s = Some (r, s') \<and>
     snake_len s' = snake_len s + 1 \<and> score s' = score s + 10 \<and>
     segments s' = new_head s # segments s \<and>
     segments s' ! snake_len s = last (segments s)"
proof -
  from step_snake_eat [OF ok nw ns f, of rnd] obtain k r
    where st: "step_snake rnd s = Some (r, speed_up (placed rnd (grown s) k))"
    by blast
  let ?s' = "speed_up (placed rnd (grown s) k)"
  have seg: "segments ?s' = new_head s # segments s"
    using segments_after_eat [OF ok, where g = "game_over ?s'" and rnd = rnd and k = k] by simp
  have "(new_head s # segments s) ! snake_len s = last (segments s)"
    using segments_nonempty [OF ok] length_segments [OF ok]
    by (cases "snake_len s") (simp_all add: last_conv_nth)
  then show ?thesis
    using st by (simp add: seg) (simp add: speed_up_fields placed_fields grown_fields)
qed

theorem eat_grows_snake_witness:
  "buffer_ok (demo_state 0) \<and> \<not> out_of_grid (demo_state 0) (new_head (demo_state 0)) \<and>
   new_head (demo_state 0) \<notin> set (segments (demo_state 0)) \<and>
   new_head (demo_state 0) = fruit (demo_state 0) \<and>
   (\<exists>r s'. step_snake demo_rnd (demo_state 0) = Some (r, s') \<and>
      snake_len s' = snake_len (demo_state 0) + 1 \<and> score s' = score (demo_state 0) + 10 \<and>
      segments s' = new_head (demo_state 0) # segments (demo_state 0))"
proof -
  from demo_state_0_facts have h: "buffer_ok (demo_state 0)"
    "\<not> out_of_grid (demo_state 0) (new_head (demo_state 0))"
    "new_head (demo_state 0) \<notin> set (segments (demo_state 0))"
    "new_head (demo_state 0) = fruit (demo_state 0)"
    by blast+
  from eat_grows_snake [OF h, of demo_rnd] h show ?thesis
    by blast
qed

text \<open>
  The claim has the cell of the old tail occupied by the segment that was second-to-last.
  In the first tick of the game that \<open>demo\<close> plays the snake has 4 segments and eats;
  afterwards the segment with index 2, second-to-last before the tick, and the segment
  with index 3 are not on the cell of the old tail: the new segment with index 4 is.
\<close>

theorem old_tail_cell_kept_by_new_last_segment:
  "reach demo_rnd 0 (demo_state 0) \<and> \<not> game_over (demo_state 0) \<and>
   \<not> out_of_grid (demo_state 0) (new_head (demo_state 0)) \<and>
   new_head (demo_state 0) \<notin> set (segments (demo_state 0)) \<and>
   new_head (demo_state 0) = fruit (demo_state 0) \<and>
   tick demo_rnd (demo_state 0) = Some (demo_state 1) \<and>
   snake_len (demo_state 0) = 4 \<and>
   last (segments (demo_state 0)) = segments (demo_state 0) ! 3 \<and>
   segments (demo_state 1) ! 2 \<noteq> segments (demo_state 0) ! 3 \<and>
   segments (demo_state 1) ! 3 \<noteq> segments (demo_state 0) ! 3 \<and>
   segments (demo_state 1) ! 4 = segments (demo_state 0) ! 3"
  using demo_reach [OF demo_eaten_0] demo_state_0_facts demo_tick_0 demo_state_1_segments
  by blast

text \<open>
  Claim C8. For every current direction \<open>dir s\<close> and requested direction \<open>r\<close>,
  \<open>change_direction\<close> leaves the stored direction as it is when \<open>r\<close> is the exact reverse
  of it, and sets it to \<open>r\<close> otherwise. The function returns a state and nothing else, so
  no error is signalled, and the state it returns differs from \<open>s\<close> in the field \<open>dir\<close>
  at most.
\<close>

theorem change_direction_ignores_reverse:
  "dir (change_direction r s) = (if r = reverse_of (dir s) then dir s else r) \<and>
   change_direction r s = s\<lparr>dir := dir (change_direction r s)\<rparr>"
  by (cases "dir s"; cases r) (simp_all add: change_direction_def opposite_def)

text \<open>
  Claim C9. In a state whose segments fit the array and are pairwise distinct (every
  reachable running state is one, lemma \<open>reach_running\<close>), when the new head is inside
  the grid, on no segment and not on the fruit, \<^verbatim>\<open>step_snake\<close> returns 1. The new head
  is the old head advanced in the current direction, exactly one cell away; the other
  segments are the old ones without the tail; the cell of the old tail is no longer
  occupied; and length, score, level, delay, fruit and direction are unchanged.
\<close>

theorem plain_move:
  assumes ok: "buffer_ok s" and d: "distinct (segments s)"
    and nw: "\<not> out_of_grid s (new_head s)" and ns: "new_head s \<notin> set (segments s)"
    and nf: "new_head s \<noteq> fruit s"
  shows "\<exists>s'. step_snake rnd s = Some (Moved, s') \<and>
     hd (segments s') = advance (dir s) (hd (segments s)) \<and>
     \<bar>x (hd (segments s')) - x (hd (segments s))\<bar> + \<bar>y (hd (segments s')) - y (hd (segments s))\<bar> = 1 \<and>
     segments s' = hd (segments s') # butlast (segments s) \<and>
     last (segments s) \<notin> set (segments s') \<and>
     snake_len s' = snake_len s \<and> score s' = score s \<and> level s' = level s \<and>
     delay_ms s' = delay_ms s \<and> fruit s' = fruit s \<and> dir s' = dir s"
proof -
  have st: "step_snake rnd s = Some (Moved, shifted s)"
    by (rule step_snake_move [OF ok nw ns nf])
  have seg: "segments (shifted s) = new_head s # butlast (segments s)"
    by (rule segments_shifted [OF ok])
  have nh: "new_head s = advance (dir s) (hd (segments s))"
    by (simp add: new_head_def hd_segments [OF ok])
  have tail: "last (segments s) \<notin> set (segments (shifted s))"
    using ns last_not_in_butlast [OF d segments_nonempty [OF ok]]
      last_in_set [OF segments_nonempty [OF ok]]
    by (auto simp: seg)
  show ?thesis
    using st tail advance_one_cell [of "dir s" "hd (segments s)"]
    by (simp add: seg nh [symmetric] shifted_fields)
qed

theorem plain_move_witness:
  "buffer_ok (change_direction UP (demo_state 0)) \<and>
   distinct (segments (change_direction UP (demo_state 0))) \<and>
   \<not> out_of_grid (change_direction UP (demo_state 0)) (new_head (change_direction UP (demo_state 0))) \<and>
   new_head (change_direction UP (demo_state 0)) \<notin> set (segments (change_direction UP (demo_state 0))) \<and>
   new_head (change_direction UP (demo_state 0)) \<noteq> fruit (change_direction UP (demo_state 0)) \<and>
   (\<exists>s'. step_snake demo_rnd (change_direction UP (demo_state 0)) = Some (Moved, s') \<and>
      segments s' = hd (segments s') # butlast (segments (change_direction UP (demo_state 0))) \<and>
      last (segments (change_direction UP (demo_state 0))) \<notin> set (segments s') \<and>
      snake_len s' = snake_len (change_direction UP (demo_state 0)) \<and>
      score s' = score (change_direction UP (demo_state 0)))"
proof -
  let ?s = "change_direction UP (demo_state 0)"
  from demo_turn_up_facts have h: "buffer_ok ?s" "distinct (segments ?s)"
    "\<not> out_of_grid ?s (new_head ?s)" "new_head ?s \<notin> set (segments ?s)" "new_head ?s \<noteq> fruit ?s"
    by simp_all
  from plain_move [OF h, of demo_rnd] h show ?thesis
    by blast
qed

text \<open>
  Claim C10. In every state reachable from initialisation by turns and ticks, the score
  is ten times the growth of the snake, \<open>score = 10 * (snake_len - 4)\<close>, and ten times the
  number \<open>n\<close> of fruits eaten; the length is \<open>4 + n\<close>, so neither changes without the
  other.
\<close>

theorem score_tenfold_growth:
  "reach rnd n s \<Longrightarrow>
   score s = 10 * (int (snake_len s) - 4) \<and> score s = 10 * int n \<and> snake_len s = 4 + n"
  using reach_inv [of rnd n s] by (simp add: count_inv_def STARTING_LENGTH_def)

theorem score_tenfold_growth_witness:
  "reach demo_rnd 2 (demo_state 2) \<and>
   score (demo_state 2) = 10 * (int (snake_len (demo_state 2)) - 4) \<and>
   score (demo_state 2) = 20 \<and> snake_len (demo_state 2) = 6"
proof -
  have r: "reach demo_rnd 2 (demo_state 2)"
    using demo_eaten_2 by (rule demo_reach)
  from score_tenfold_growth [OF r] r show ?thesis
    by simp
qed

end
